theory Spec2Isabelle
  imports Complex_Main "HOL-Library.Extended_Nat" "HOL-Library.Sublist" "HOL-Library.Multiset"
begin

section \<open>Python numbers\<close>

text \<open>
  The croppers of \<^verbatim>\<open>surya/scripts/pipeline.py\<close> compute on Python floats and truncate
  them to Python integers. A float is a finite value, which is a rational number, an
  infinity, or NaN; the sign of a zero has no effect on anything the croppers compute, so
  the two zeros are one value. Python integers are unbounded, so they are \<open>int\<close>. A float
  operation on finite values is the exact operation followed by a rounding \<open>rnd\<close>, which
  the model takes as a parameter and which may overflow to an infinity: \<open>Fin\<close> gives exact
  arithmetic, \<open>round_double\<close> below gives IEEE 754 binary64 with round-to-nearest-even,
  which is what CPython computes. On infinities and NaN the operations follow IEEE 754.
\<close>

datatype pyfloat = Fin rat | PInf | NInf | NaN

datatype error = ValueError string | IndexError | ZeroDivisionError | OverflowError

definition fneg :: "pyfloat \<Rightarrow> pyfloat" where
  "fneg a = (case a of Fin x \<Rightarrow> Fin (- x) | PInf \<Rightarrow> NInf | NInf \<Rightarrow> PInf | NaN \<Rightarrow> NaN)"

text \<open>\<^verbatim>\<open>a * b\<close>: an infinity times zero is NaN, otherwise the signs multiply.\<close>

fun fmul :: "(rat \<Rightarrow> pyfloat) \<Rightarrow> pyfloat \<Rightarrow> pyfloat \<Rightarrow> pyfloat" where
  "fmul rnd (Fin a) (Fin b) = rnd (a * b)"
| "fmul rnd NaN b = NaN"
| "fmul rnd a NaN = NaN"
| "fmul rnd (Fin a) PInf = (if a = 0 then NaN else if 0 < a then PInf else NInf)"
| "fmul rnd (Fin a) NInf = (if a = 0 then NaN else if 0 < a then NInf else PInf)"
| "fmul rnd PInf (Fin b) = (if b = 0 then NaN else if 0 < b then PInf else NInf)"
| "fmul rnd NInf (Fin b) = (if b = 0 then NaN else if 0 < b then NInf else PInf)"
| "fmul rnd PInf PInf = PInf"
| "fmul rnd PInf NInf = NInf"
| "fmul rnd NInf PInf = NInf"
| "fmul rnd NInf NInf = PInf"

text \<open>\<^verbatim>\<open>a + b\<close>: the two infinities add to NaN.\<close>

fun fadd :: "(rat \<Rightarrow> pyfloat) \<Rightarrow> pyfloat \<Rightarrow> pyfloat \<Rightarrow> pyfloat" where
  "fadd rnd (Fin a) (Fin b) = rnd (a + b)"
| "fadd rnd NaN b = NaN"
| "fadd rnd a NaN = NaN"
| "fadd rnd PInf NInf = NaN"
| "fadd rnd NInf PInf = NaN"
| "fadd rnd PInf b = PInf"
| "fadd rnd a PInf = PInf"
| "fadd rnd NInf b = NInf"
| "fadd rnd a NInf = NInf"

definition fsub :: "(rat \<Rightarrow> pyfloat) \<Rightarrow> pyfloat \<Rightarrow> pyfloat \<Rightarrow> pyfloat" where
  "fsub rnd a b = fadd rnd a (fneg b)"

text \<open>\<^verbatim>\<open>a < b\<close> and \<^verbatim>\<open>a <= b\<close>: false whenever an operand is NaN.\<close>

fun flt :: "pyfloat \<Rightarrow> pyfloat \<Rightarrow> bool" where
  "flt (Fin a) (Fin b) = (a < b)"
| "flt NaN b = False"
| "flt a NaN = False"
| "flt a NInf = False"
| "flt PInf b = False"
| "flt NInf b = True"
| "flt a PInf = True"

fun fle :: "pyfloat \<Rightarrow> pyfloat \<Rightarrow> bool" where
  "fle (Fin a) (Fin b) = (a \<le> b)"
| "fle NaN b = False"
| "fle a NaN = False"
| "fle NInf b = True"
| "fle a PInf = True"
| "fle a NInf = False"
| "fle PInf b = False"

text \<open>\<^verbatim>\<open>max(a, b)\<close> and \<^verbatim>\<open>min(a, b)\<close> return the first argument unless the second is
  strictly larger (smaller); a NaN as second argument is never that.\<close>

definition py_max :: "pyfloat \<Rightarrow> pyfloat \<Rightarrow> pyfloat" where
  "py_max a b = (if flt a b then b else a)"

definition py_min :: "pyfloat \<Rightarrow> pyfloat \<Rightarrow> pyfloat" where
  "py_min a b = (if flt b a then b else a)"

text \<open>\<^verbatim>\<open>int(x)\<close> on a float truncates towards zero; it raises \<^verbatim>\<open>OverflowError\<close> on an
  infinity and \<^verbatim>\<open>ValueError\<close> on NaN.\<close>

definition trunc_rat :: "rat \<Rightarrow> int" where
  "trunc_rat x = (if 0 \<le> x then \<lfloor>x\<rfloor> else \<lceil>x\<rceil>)"

definition py_int :: "pyfloat \<Rightarrow> error + int" where
  "py_int a =
     (case a of
        Fin x \<Rightarrow> Inr (trunc_rat x)
      | PInf \<Rightarrow> Inl OverflowError
      | NInf \<Rightarrow> Inl OverflowError
      | NaN \<Rightarrow> Inl (ValueError ''cannot convert float NaN to integer''))"

text \<open>\<^verbatim>\<open>a / b\<close> on two Python integers: the correctly rounded quotient; it raises
  \<^verbatim>\<open>ZeroDivisionError\<close> on a zero divisor and \<^verbatim>\<open>OverflowError\<close> when the quotient is too
  large for a float.\<close>

definition truediv :: "(rat \<Rightarrow> pyfloat) \<Rightarrow> int \<Rightarrow> int \<Rightarrow> error + pyfloat" where
  "truediv rnd a b =
     (if b = 0 then Inl ZeroDivisionError
      else case rnd (of_int a / of_int b) of Fin q \<Rightarrow> Inr (Fin q) | _ \<Rightarrow> Inl OverflowError)"

subsection \<open>IEEE 754 binary64 rounding\<close>

definition pow2 :: "int \<Rightarrow> rat" where
  "pow2 e = (if 0 \<le> e then 2 ^ nat e else 1 / 2 ^ nat (- e))"

text \<open>\<^verbatim>\<open>int.bit_length\<close>: the number of binary digits of a positive integer.\<close>

function bit_length :: "int \<Rightarrow> int" where
  "bit_length n = (if n \<le> 0 then 0 else 1 + bit_length (n div 2))"
  by pat_completeness auto
termination
  by (relation "measure nat") auto

declare bit_length.simps [simp del]

text \<open>The exponent \<open>e\<close> with \<open>2^e \<le> |x| < 2^(e+1)\<close>, for \<open>x \<noteq> 0\<close>.\<close>

definition float_exponent :: "rat \<Rightarrow> int" where
  "float_exponent x =
     (let (p, q) = quotient_of \<bar>x\<bar>;
          e0 = bit_length p - bit_length q
      in if pow2 e0 \<le> \<bar>x\<bar> then e0 else e0 - 1)"

definition round_half_even :: "rat \<Rightarrow> int" where
  "round_half_even x =
     (let f = \<lfloor>x\<rfloor>; d = x - of_int f
      in if d < 1 / 2 then f
         else if 1 / 2 < d then f + 1
         else if even f then f else f + 1)"

text \<open>The nearest value with 53 significant bits, ties to even, at a spacing of
  \<open>2^-1074\<close> below \<open>2^-1022\<close>, with no bound on the exponent above.\<close>

definition round_53 :: "rat \<Rightarrow> rat" where
  "round_53 x =
     (if x = 0 then 0
      else let e = max (float_exponent x) (- 1022);
               ulp = pow2 (e - 52)
           in of_int (round_half_even (x / ulp)) * ulp)"

text \<open>Round to the nearest double: a result of magnitude \<open>2^1024\<close> or more, which is one
  of exponent \<open>1024\<close> or more, is an infinity.\<close>

definition round_double :: "rat \<Rightarrow> pyfloat" where
  "round_double x =
     (let r = round_53 x
      in if float_exponent r < 1024 then Fin r else if 0 < r then PInf else NInf)"

section \<open>Boxes and the crop computation\<close>

text \<open>A layout box is the four floats \<open>(x1, y1, x2, y2)\<close> that \<^verbatim>\<open>map(float, ...)\<close> yields from
  the \<^verbatim>\<open>bbox\<close> entry; a crop box is the four integers handed to \<^verbatim>\<open>crop\<close>.\<close>

type_synonym box = "pyfloat \<times> pyfloat \<times> pyfloat \<times> pyfloat"
type_synonym crop_box = "int \<times> int \<times> int \<times> int"

text \<open>An image is represented by its \<^verbatim>\<open>size\<close>, \<open>(width, height)\<close>, the only attribute
  the croppers read.\<close>

type_synonym image = "int \<times> int"

text \<open>
  Document mode, lines 78 to 90 of \<^verbatim>\<open>crop_clean_segments_with_margin\<close> and the arguments
  of \<^verbatim>\<open>int\<close> in lines 91 to 94: scale the corners, take the margins from the scaled
  extent, expand and clamp.
\<close>

definition clamp_scaled ::
  "(rat \<Rightarrow> pyfloat) \<Rightarrow> pyfloat \<Rightarrow> pyfloat \<Rightarrow> pyfloat \<Rightarrow> pyfloat \<Rightarrow> int \<Rightarrow> int \<Rightarrow> box \<Rightarrow> box" where
  "clamp_scaled rnd scale_x scale_y margin_x_ratio margin_y_ratio orig_w orig_h b =
     (case b of (x1, y1, x2, y2) \<Rightarrow>
        let x1_scaled = fmul rnd x1 scale_x;
            y1_scaled = fmul rnd y1 scale_y;
            x2_scaled = fmul rnd x2 scale_x;
            y2_scaled = fmul rnd y2 scale_y;
            width = fsub rnd x2_scaled x1_scaled;
            height = fsub rnd y2_scaled y1_scaled;
            margin_x = fmul rnd margin_x_ratio width;
            margin_y = fmul rnd margin_y_ratio height
        in (py_max (Fin 0) (fsub rnd x1_scaled margin_x),
            py_max (Fin 0) (fsub rnd y1_scaled margin_y),
            py_min (Fin (of_int orig_w)) (fadd rnd x2_scaled margin_x),
            py_min (Fin (of_int orig_h)) (fadd rnd y2_scaled margin_y)))"

text \<open>The four calls of \<^verbatim>\<open>int\<close> of lines 91 to 94 and 130 to 133, in their order: the
  first that raises ends the computation.\<close>

definition truncate_box :: "box \<Rightarrow> error + crop_box" where
  "truncate_box c =
     (case c of (a, b, c, d) \<Rightarrow>
        case py_int a of Inl e \<Rightarrow> Inl e | Inr new_x1 \<Rightarrow>
        case py_int b of Inl e \<Rightarrow> Inl e | Inr new_y1 \<Rightarrow>
        case py_int c of Inl e \<Rightarrow> Inl e | Inr new_x2 \<Rightarrow>
        case py_int d of Inl e \<Rightarrow> Inl e | Inr new_y2 \<Rightarrow>
        Inr (new_x1, new_y1, new_x2, new_y2))"

definition crop_scaled ::
  "(rat \<Rightarrow> pyfloat) \<Rightarrow> pyfloat \<Rightarrow> pyfloat \<Rightarrow> pyfloat \<Rightarrow> pyfloat \<Rightarrow> int \<Rightarrow> int \<Rightarrow> box \<Rightarrow>
   error + crop_box" where
  "crop_scaled rnd scale_x scale_y margin_x_ratio margin_y_ratio orig_w orig_h b =
     truncate_box (clamp_scaled rnd scale_x scale_y margin_x_ratio margin_y_ratio orig_w orig_h b)"

text \<open>Direct mode, lines 123 to 133 of \<^verbatim>\<open>crop_segments_from_image\<close>: no scaling, one
  margin ratio for both axes.\<close>

definition clamp_direct :: "(rat \<Rightarrow> pyfloat) \<Rightarrow> pyfloat \<Rightarrow> int \<Rightarrow> int \<Rightarrow> box \<Rightarrow> box" where
  "clamp_direct rnd margin_ratio orig_w orig_h b =
     (case b of (x1, y1, x2, y2) \<Rightarrow>
        let width = fsub rnd x2 x1;
            height = fsub rnd y2 y1;
            margin_x = fmul rnd margin_ratio width;
            margin_y = fmul rnd margin_ratio height
        in (py_max (Fin 0) (fsub rnd x1 margin_x),
            py_max (Fin 0) (fsub rnd y1 margin_y),
            py_min (Fin (of_int orig_w)) (fadd rnd x2 margin_x),
            py_min (Fin (of_int orig_h)) (fadd rnd y2 margin_y)))"

definition crop_direct :: "(rat \<Rightarrow> pyfloat) \<Rightarrow> pyfloat \<Rightarrow> int \<Rightarrow> int \<Rightarrow> box \<Rightarrow> error + crop_box" where
  "crop_direct rnd margin_ratio orig_w orig_h b =
     truncate_box (clamp_direct rnd margin_ratio orig_w orig_h b)"

text \<open>The test of lines 96 and 135: \<^verbatim>\<open>new_x2 <= new_x1 or new_y2 <= new_y1\<close>.\<close>

definition degenerate :: "crop_box \<Rightarrow> bool" where
  "degenerate c = (case c of (new_x1, new_y1, new_x2, new_y2) \<Rightarrow> new_x2 \<le> new_x1 \<or> new_y2 \<le> new_y1)"

text \<open>The bounds a segment must have on its page: inside the page, with positive width
  and height.\<close>

definition within_page :: "image \<Rightarrow> crop_box \<Rightarrow> bool" where
  "within_page img c =
     (case img of (page_width, page_height) \<Rightarrow>
        case c of (x1, y1, x2, y2) \<Rightarrow>
          0 \<le> x1 \<and> x1 < x2 \<and> x2 \<le> page_width \<and> 0 \<le> y1 \<and> y1 < y2 \<and> y2 \<le> page_height)"

section \<open>Python strings\<close>

text \<open>A string is a list of characters with code points below 256. \<open>str_int\<close> is
  \<^verbatim>\<open>str\<close> on an integer, as an f-string formats it.\<close>

definition digit_char :: "nat \<Rightarrow> char" where
  "digit_char d = char_of (48 + d)"

fun str_nat :: "nat \<Rightarrow> string" where
  "str_nat n = (if n < 10 then [digit_char n] else str_nat (n div 10) @ [digit_char (n mod 10)])"

declare str_nat.simps [simp del]

definition str_int :: "int \<Rightarrow> string" where
  "str_int i = (if i < 0 then CHR ''-'' # str_nat (nat (- i)) else str_nat (nat i))"

definition startswith :: "string \<Rightarrow> string \<Rightarrow> bool" where
  "startswith s pre = (take (length pre) s = pre)"

definition endswith :: "string \<Rightarrow> string \<Rightarrow> bool" where
  "endswith s suf = (length suf \<le> length s \<and> drop (length s - length suf) s = suf)"

text \<open>\<^verbatim>\<open>sub in s\<close>: \<open>sub\<close> occurs in \<open>s\<close> as a contiguous substring.\<close>

fun str_in :: "string \<Rightarrow> string \<Rightarrow> bool" where
  "str_in sub [] = (sub = [])"
| "str_in sub (c # cs) = (startswith (c # cs) sub \<or> str_in sub cs)"

text \<open>The characters \<^verbatim>\<open>str.strip()\<close> removes: those for which \<^verbatim>\<open>str.isspace\<close> holds,
  among the code points below 256.\<close>

definition is_space :: "char \<Rightarrow> bool" where
  "is_space c = ((of_char c :: nat) \<in> {9, 10, 11, 12, 13, 28, 29, 30, 31, 32, 133, 160})"

definition py_strip :: "string \<Rightarrow> string" where
  "py_strip s = rev (dropWhile is_space (rev (dropWhile is_space s)))"

text \<open>\<^verbatim>\<open>s.strip("/")\<close>, \<^verbatim>\<open>os.path.basename\<close> and \<^verbatim>\<open>os.path.join\<close> (POSIX).\<close>

definition strip_slash :: "string \<Rightarrow> string" where
  "strip_slash s =
     rev (dropWhile (\<lambda>c. c = CHR ''/'') (rev (dropWhile (\<lambda>c. c = CHR ''/'') s)))"

definition basename :: "string \<Rightarrow> string" where
  "basename p = rev (takeWhile (\<lambda>c. c \<noteq> CHR ''/'') (rev p))"

definition path_join :: "string \<Rightarrow> string \<Rightarrow> string" where
  "path_join a b =
     (if startswith b ''/'' then b
      else if a = [] \<or> endswith a ''/'' then a @ b
      else a @ ''/'' @ b)"

section \<open>The croppers\<close>

text \<open>
  What a cropper does to the outside: \<open>Saved out_name img c\<close> is
  \<^verbatim>\<open>img.crop(c).save(os.path.join(output_dir, out_name))\<close> with its log line,
  \<open>LayoutNotFound p\<close> is the log line of line 68. A run is the list of its events, in
  order, and the exception that ended it, if one did. The failures of the file system
  and of the image library are not modelled.
\<close>

datatype event = Saved string image crop_box | LayoutNotFound int

type_synonym run = "event list \<times> error option"

definition then_run :: "event list \<Rightarrow> run \<Rightarrow> run" where
  "then_run evs r = (evs @ fst r, snd r)"

text \<open>One run after another: the second happens only when the first ends without an
  exception.\<close>

definition run_seq :: "run \<Rightarrow> run \<Rightarrow> run" where
  "run_seq r k = (case snd r of Some e \<Rightarrow> r | None \<Rightarrow> then_run (fst r) k)"

text \<open>
  The loop over the boxes of one image, lines 77 to 103 and 122 to 142. The two loops
  differ in the box computation \<open>crop\<close> and in the file name \<open>out_name\<close> only; \<open>idx\<close>
  is the counter of \<^verbatim>\<open>enumerate\<close>. A box computation that raises ends the loop, a
  degenerate box takes the \<^verbatim>\<open>continue\<close>.
\<close>

fun crop_loop ::
  "(box \<Rightarrow> error + crop_box) \<Rightarrow> (nat \<Rightarrow> string) \<Rightarrow> image \<Rightarrow> nat \<Rightarrow> box list \<Rightarrow> run" where
  "crop_loop crop out_name img idx [] = ([], None)"
| "crop_loop crop out_name img idx (b # boxes) =
     (case crop b of
        Inl e \<Rightarrow> ([], Some e)
      | Inr c \<Rightarrow>
          if degenerate c then crop_loop crop out_name img (Suc idx) boxes
          else then_run [Saved (out_name idx) img c] (crop_loop crop out_name img (Suc idx) boxes))"

subsection \<open>Direct mode\<close>

definition image_out_name :: "nat \<Rightarrow> string" where
  "image_out_name idx = ''image_box_'' @ str_nat (idx + 1) @ ''.png''"

definition crop_segments_from_image :: "(rat \<Rightarrow> pyfloat) \<Rightarrow> image \<Rightarrow> box list \<Rightarrow> pyfloat \<Rightarrow> run" where
  "crop_segments_from_image rnd img layout_result margin_ratio =
     (case img of (orig_w, orig_h) \<Rightarrow>
        crop_loop (crop_direct rnd margin_ratio orig_w orig_h) image_out_name img 0 layout_result)"

subsection \<open>Document mode\<close>

record page_data =
  page :: int
  bboxes :: "box list"

text \<open>What the run reads from outside: the page renders of \<^verbatim>\<open>convert_from_path\<close>, the
  listing of \<^verbatim>\<open>layout_image_dir\<close>, and the size of the layout image under a name.\<close>

record world =
  pdf_pages :: "image list"
  listdir :: "string list"
  image_size :: "string \<Rightarrow> image"

text \<open>\<^verbatim>\<open>xs[i]\<close>: a negative index counts from the end, an index out of range raises.\<close>

definition py_index :: "'a list \<Rightarrow> int \<Rightarrow> error + 'a" where
  "py_index xs i =
     (if 0 \<le> i \<and> i < int (length xs) then Inr (xs ! nat i)
      else if i < 0 \<and> - int (length xs) \<le> i then Inr (xs ! nat (int (length xs) + i))
      else Inl IndexError)"

text \<open>The test of line 63 on one file name, for the 0-based page index \<open>p\<close>.\<close>

definition page_match :: "int \<Rightarrow> string \<Rightarrow> bool" where
  "page_match p fname =
     (str_in (''_'' @ str_int p @ ''_'') fname \<or> endswith fname (''_'' @ str_int p @ ''_layout.png''))"

text \<open>The search of lines 61 to 65: the first name that matches, \<open>None\<close> when the loop
  ends without a \<^verbatim>\<open>break\<close>.\<close>

fun find_layout_file :: "int \<Rightarrow> string list \<Rightarrow> string option" where
  "find_layout_file p [] = None"
| "find_layout_file p (fname # rest) =
     (if page_match p fname then Some fname else find_layout_file p rest)"

definition page_out_name :: "string \<Rightarrow> int \<Rightarrow> nat \<Rightarrow> string" where
  "page_out_name doc_key page_num idx =
     doc_key @ ''_page_'' @ str_int page_num @ ''_box_'' @ str_nat (idx + 1) @ ''.png''"

text \<open>
  The body of the loop over the pages, lines 57 to 103, for one \<^verbatim>\<open>page_data\<close>: its events,
  and the exception it raises, if it does. \<^verbatim>\<open>not matched_layout_file\<close> holds for \<^verbatim>\<open>None\<close>
  and for the empty string, and leads to the \<^verbatim>\<open>continue\<close> of line 69.
  The divisions of lines 74 and 75 raise on a layout image of width or height zero, as
  the code has it, although the image library does not open such a file; the box loop
  ends the page, and the run, when \<^verbatim>\<open>int\<close> raises.
\<close>

definition crop_page ::
  "(rat \<Rightarrow> pyfloat) \<Rightarrow> world \<Rightarrow> string list \<Rightarrow> string \<Rightarrow> pyfloat \<Rightarrow> pyfloat \<Rightarrow> page_data \<Rightarrow> run" where
  "crop_page rnd w layout_images doc_key margin_x_ratio margin_y_ratio pd =
     (let page_num = page pd in
      case py_index (pdf_pages w) (page_num - 1) of
        Inl e \<Rightarrow> ([], Some e)
      | Inr original_img \<Rightarrow>
          (let (orig_w, orig_h) = original_img;
               matched_layout_file = find_layout_file (page_num - 1) layout_images
           in if matched_layout_file = None \<or> matched_layout_file = Some []
              then ([LayoutNotFound (page_num - 1)], None)
              else
                (let (layout_w, layout_h) = image_size w (the matched_layout_file) in
                 case truediv rnd orig_w layout_w of
                   Inl e \<Rightarrow> ([], Some e)
                 | Inr scale_x \<Rightarrow>
                     (case truediv rnd orig_h layout_h of
                        Inl e \<Rightarrow> ([], Some e)
                      | Inr scale_y \<Rightarrow>
                          crop_loop
                            (crop_scaled rnd scale_x scale_y margin_x_ratio margin_y_ratio orig_w orig_h)
                            (page_out_name doc_key page_num) original_img 0 (bboxes pd)))))"

text \<open>The loop over the pages, line 56: an exception ends the run and keeps what was
  written before it.\<close>

fun crop_pages ::
  "(rat \<Rightarrow> pyfloat) \<Rightarrow> world \<Rightarrow> string list \<Rightarrow> string \<Rightarrow> pyfloat \<Rightarrow> pyfloat \<Rightarrow> page_data list \<Rightarrow> run" where
  "crop_pages rnd w layout_images doc_key margin_x_ratio margin_y_ratio [] = ([], None)"
| "crop_pages rnd w layout_images doc_key margin_x_ratio margin_y_ratio (pd # rest) =
     run_seq (crop_page rnd w layout_images doc_key margin_x_ratio margin_y_ratio pd)
       (crop_pages rnd w layout_images doc_key margin_x_ratio margin_y_ratio rest)"

text \<open>\<^verbatim>\<open>layout_data\<close> is the parsed JSON object, a dictionary from document keys to page
  lists, kept as the list of its items.\<close>

definition crop_clean_segments_with_margin ::
  "(rat \<Rightarrow> pyfloat) \<Rightarrow> world \<Rightarrow> (string \<times> page_data list) list \<Rightarrow> pyfloat \<Rightarrow> pyfloat \<Rightarrow> run" where
  "crop_clean_segments_with_margin rnd w layout_data margin_x_ratio margin_y_ratio =
     (if length layout_data \<noteq> 1 then ([], Some (ValueError ''Expected one document in JSON.''))
      else
        (let doc_key = fst (hd layout_data);
             page_data_list = snd (hd layout_data);
             layout_images = filter (\<lambda>f. endswith f ''_layout.png'') (listdir w)
         in crop_pages rnd w layout_images doc_key margin_x_ratio margin_y_ratio page_data_list))"

section \<open>The recognizer and the report\<close>

text \<open>
  \<^verbatim>\<open>extract_box_number\<close>, lines 157 to 159: \<^verbatim>\<open>re.search(r"box_(\d+)", fname)\<close> finds the
  leftmost place where \<^verbatim>\<open>box_\<close> is followed by a digit and captures the longest run of
  digits there. Below 256 the decimal digits are \<^verbatim>\<open>0\<close> to \<^verbatim>\<open>9\<close>. The key is the captured
  number, or \<^verbatim>\<open>float('inf')\<close>, which is \<open>\<infinity>\<close> in \<open>enat\<close>.
\<close>

definition is_digit :: "char \<Rightarrow> bool" where
  "is_digit c = (48 \<le> (of_char c :: nat) \<and> (of_char c :: nat) \<le> 57)"

fun re_search_box :: "string \<Rightarrow> string option" where
  "re_search_box [] = None"
| "re_search_box (c # cs) =
     (let digits = takeWhile is_digit (drop 4 (c # cs))
      in if startswith (c # cs) ''box_'' \<and> digits \<noteq> [] then Some digits else re_search_box cs)"

definition int_of_digits :: "string \<Rightarrow> nat" where
  "int_of_digits ds = foldl (\<lambda>n c. 10 * n + (of_char c - 48)) 0 ds"

definition extract_box_number :: "string \<Rightarrow> enat" where
  "extract_box_number fname =
     (case re_search_box fname of Some ds \<Rightarrow> enat (int_of_digits ds) | None \<Rightarrow> \<infinity>)"

text \<open>
  Lines 155 and 161: the \<^verbatim>\<open>.png\<close> names of the listing, sorted by the key.
  \<^verbatim>\<open>list.sort\<close> is a stable sort, and so is \<open>sort_key\<close>; a list has one stable sorting
  under a key, so the two agree.
\<close>

definition segment_files :: "string list \<Rightarrow> string list" where
  "segment_files listing = sort_key extract_box_number (filter (\<lambda>f. endswith f ''.png'') listing)"

abbreviation NL :: string where
  "NL \<equiv> [CHR 0x0A]"

text \<open>Lines 170 to 173: every line of every prediction, each followed by a newline.
  A prediction is the list of the texts of its \<^verbatim>\<open>text_lines\<close>.\<close>

definition segment_text_of :: "string list list \<Rightarrow> string" where
  "segment_text_of preds =
     fold (\<lambda>pred segment_text. fold (\<lambda>line segment_text. segment_text @ line @ NL) pred segment_text)
       preds []"

text \<open>Lines 175 to 178: what one segment adds to the report.\<close>

definition segment_entry :: "string \<Rightarrow> string list list \<Rightarrow> string" where
  "segment_entry fname preds =
     (let segment_text = segment_text_of preds;
          segment_text = (if py_strip segment_text = [] then ''<No Text Detected>'' else segment_text)
      in ''['' @ fname @ '']'' @ NL @ py_strip segment_text @ NL @ NL)"

text \<open>The body of the loop over the folders, lines 153 to 178. \<open>os_listdir\<close> is the
  listing of a folder and \<open>recognition\<close> the predictions for the image under a path.\<close>

definition folder_header :: "string \<Rightarrow> string" where
  "folder_header folder_path =
     NL @ ''=== SEGMENTS: '' @ basename (strip_slash folder_path) @ '' ==='' @ NL @ NL"

definition ocr_folder ::
  "(string \<Rightarrow> string list) \<Rightarrow> (string \<Rightarrow> string list list) \<Rightarrow> string \<Rightarrow> string \<Rightarrow> string" where
  "ocr_folder os_listdir recognition folder_path full_text =
     (let files = segment_files (os_listdir folder_path);
          full_text = full_text @ folder_header folder_path
      in fold (\<lambda>fname full_text.
                 full_text @ segment_entry fname (recognition (path_join folder_path fname)))
           files full_text)"

text \<open>\<^verbatim>\<open>ocr_segments\<close>: the text written to \<^verbatim>\<open>output_txt_path\<close>.\<close>

definition ocr_segments ::
  "(string \<Rightarrow> string list) \<Rightarrow> (string \<Rightarrow> string list list) \<Rightarrow> string list \<Rightarrow> string" where
  "ocr_segments os_listdir recognition segment_folders =
     fold (ocr_folder os_listdir recognition) segment_folders []"

section \<open>Truncation and clamping\<close>

lemma trunc_rat_mono: "x \<le> y \<Longrightarrow> trunc_rat x \<le> trunc_rat y"
proof -
  assume xy: "x \<le> y"
  consider "0 \<le> x" | "x < 0" "0 \<le> y" | "y < 0" by linarith
  then show ?thesis
  proof cases
    case 1
    then show ?thesis using xy by (simp add: trunc_rat_def floor_mono)
  next
    case 2
    have "\<lceil>x\<rceil> \<le> 0" using 2 by (simp add: ceiling_le_zero)
    moreover have "0 \<le> \<lfloor>y\<rfloor>" using 2 by simp
    moreover have "trunc_rat x = \<lceil>x\<rceil>" "trunc_rat y = \<lfloor>y\<rfloor>" using 2 by (simp_all add: trunc_rat_def)
    ultimately show ?thesis by linarith
  next
    case 3
    then show ?thesis using xy by (simp add: trunc_rat_def ceiling_mono)
  qed
qed

lemma trunc_rat_of_int: "trunc_rat (of_int n) = n"
  by (simp add: trunc_rat_def)

lemma py_int_Fin: "py_int (Fin x) = Inr (trunc_rat x)"
  by (simp add: py_int_def)

text \<open>The lower clamp is a nonnegative number or plus infinity, the upper clamp a number
  up to the bound or minus infinity: neither is ever NaN.\<close>

lemma py_max_zero_cases: "py_max (Fin 0) v = PInf \<or> (\<exists>x. 0 \<le> x \<and> py_max (Fin 0) v = Fin x)"
  by (cases v) (auto simp: py_max_def)

lemma py_min_cases: "py_min (Fin n) v = NInf \<or> (\<exists>x. x \<le> n \<and> py_min (Fin n) v = Fin x)"
  by (cases v) (auto simp: py_min_def)

lemma py_int_max_nonneg: "py_int (py_max (Fin 0) v) = Inr a \<Longrightarrow> 0 \<le> a"
  using py_max_zero_cases [of v] by (auto simp: py_int_def trunc_rat_def)

lemma py_int_min_le: "py_int (py_min (Fin (of_int n)) v) = Inr c \<Longrightarrow> c \<le> n"
proof -
  assume a: "py_int (py_min (Fin (of_int n)) v) = Inr c"
  from py_min_cases [of "of_int n" v] a obtain x where x: "x \<le> of_int n" "c = trunc_rat x"
    by (auto simp: py_int_def)
  from trunc_rat_mono [OF x(1)] show ?thesis by (simp add: x(2) trunc_rat_of_int)
qed

lemma py_int_max_Inl: "py_int (py_max (Fin 0) v) = Inl e \<Longrightarrow> e = OverflowError"
  using py_max_zero_cases [of v] by (auto simp: py_int_def)

lemma py_int_min_Inl: "py_int (py_min (Fin n) v) = Inl e \<Longrightarrow> e = OverflowError"
  using py_min_cases [of n v] by (auto simp: py_int_def)

lemma truncate_box_Fin:
  "truncate_box (Fin a, Fin b, Fin c, Fin d) = Inr (trunc_rat a, trunc_rat b, trunc_rat c, trunc_rat d)"
  by (simp add: truncate_box_def py_int_def)

lemma truncate_box_Inr:
  "(truncate_box (a, b, c, d) = Inr (a', b', c', d')) =
     (py_int a = Inr a' \<and> py_int b = Inr b' \<and> py_int c = Inr c' \<and> py_int d = Inr d')"
  by (auto simp: truncate_box_def split: sum.splits)

lemma truncate_box_Inl:
  "truncate_box (a, b, c, d) = Inl e \<Longrightarrow>
     py_int a = Inl e \<or> py_int b = Inl e \<or> py_int c = Inl e \<or> py_int d = Inl e"
  by (auto simp: truncate_box_def split: sum.splits)

lemma truncate_clamped_bounds:
  "truncate_box (py_max (Fin 0) a, py_max (Fin 0) b, py_min (Fin (of_int ow)) c, py_min (Fin (of_int oh)) d) =
     Inr (a', b', c', d') \<Longrightarrow> 0 \<le> a' \<and> 0 \<le> b' \<and> c' \<le> ow \<and> d' \<le> oh"
  by (auto simp: truncate_box_Inr dest: py_int_max_nonneg py_int_min_le)

lemma truncate_clamped_Inl:
  "truncate_box (py_max (Fin 0) a, py_max (Fin 0) b, py_min (Fin n) c, py_min (Fin m) d) = Inl e \<Longrightarrow>
     e = OverflowError"
  by (auto dest!: truncate_box_Inl dest: py_int_max_Inl py_int_min_Inl)

lemma truncate_clamped_cases:
  assumes "(py_max (Fin 0) a, py_max (Fin 0) b, py_min (Fin n) c, py_min (Fin m) d) = (f1, f2, f3, f4)"
  shows "(\<exists>x1 y1 x2 y2. (f1, f2, f3, f4) = (Fin x1, Fin y1, Fin x2, Fin y2)) \<or>
         f1 = PInf \<or> f2 = PInf \<or> f3 = NInf \<or> f4 = NInf"
  using assms py_max_zero_cases [of a] py_max_zero_cases [of b] py_min_cases [of n c] py_min_cases [of m d]
  by auto

lemma truncate_clamped_overflow:
  assumes "(py_max (Fin 0) a, py_max (Fin 0) b, py_min (Fin n) c, py_min (Fin m) d) = (f1, f2, f3, f4)"
    and "f1 = PInf \<or> f2 = PInf \<or> f3 = NInf \<or> f4 = NInf"
  shows "truncate_box (f1, f2, f3, f4) = Inl OverflowError"
proof -
  obtain r where r: "truncate_box (f1, f2, f3, f4) = r" by simp
  show ?thesis
  proof (cases r)
    case (Inl e)
    then show ?thesis using r assms(1) truncate_clamped_Inl [of a b n c m d e] by simp
  next
    case (Inr q)
    obtain a' b' c' d' where "q = (a', b', c', d')" by (cases q)
    then have "py_int f1 = Inr a' \<and> py_int f2 = Inr b' \<and> py_int f3 = Inr c' \<and> py_int f4 = Inr d'"
      using r Inr by (simp add: truncate_box_Inr)
    then show ?thesis using assms(2) by (auto simp: py_int_def)
  qed
qed

lemma clamp_direct_shape:
  "\<exists>a b c d. clamp_direct rnd m ow oh bx =
     (py_max (Fin 0) a, py_max (Fin 0) b, py_min (Fin (of_int ow)) c, py_min (Fin (of_int oh)) d)"
  by (cases bx) (simp add: clamp_direct_def Let_def, blast)

lemma clamp_scaled_shape:
  "\<exists>a b c d. clamp_scaled rnd sx sy mx my ow oh bx =
     (py_max (Fin 0) a, py_max (Fin 0) b, py_min (Fin (of_int ow)) c, py_min (Fin (of_int oh)) d)"
  by (cases bx) (simp add: clamp_scaled_def Let_def, blast)

lemma crop_direct_bounds:
  "crop_direct rnd m ow oh bx = Inr (a, b, c, d) \<Longrightarrow> 0 \<le> a \<and> 0 \<le> b \<and> c \<le> ow \<and> d \<le> oh"
  using clamp_direct_shape [of rnd m ow oh bx] truncate_clamped_bounds [of _ _ ow _ oh _ a b c d]
  by (auto simp: crop_direct_def)

lemma crop_scaled_bounds:
  "crop_scaled rnd sx sy mx my ow oh bx = Inr (a, b, c, d) \<Longrightarrow> 0 \<le> a \<and> 0 \<le> b \<and> c \<le> ow \<and> d \<le> oh"
  using clamp_scaled_shape [of rnd sx sy mx my ow oh bx] truncate_clamped_bounds [of _ _ ow _ oh _ a b c d]
  by (auto simp: crop_scaled_def)

lemma crop_direct_Inl: "crop_direct rnd m ow oh bx = Inl e \<Longrightarrow> e = OverflowError"
  using clamp_direct_shape [of rnd m ow oh bx] truncate_clamped_Inl [of _ _ _ _ _ _ e]
  by (auto simp: crop_direct_def)

lemma crop_scaled_Inl: "crop_scaled rnd sx sy mx my ow oh bx = Inl e \<Longrightarrow> e = OverflowError"
  using clamp_scaled_shape [of rnd sx sy mx my ow oh bx] truncate_clamped_Inl [of _ _ _ _ _ _ e]
  by (auto simp: crop_scaled_def)

lemma crop_direct_overflow:
  assumes "clamp_direct rnd m ow oh bx = (f1, f2, f3, f4)"
    and "f1 = PInf \<or> f2 = PInf \<or> f3 = NInf \<or> f4 = NInf"
  shows "crop_direct rnd m ow oh bx = Inl OverflowError"
proof -
  from clamp_direct_shape [of rnd m ow oh bx] assms(1) obtain a b c d where
    "(py_max (Fin 0) a, py_max (Fin 0) b, py_min (Fin (of_int ow)) c, py_min (Fin (of_int oh)) d) =
       (f1, f2, f3, f4)" by auto
  from truncate_clamped_overflow [OF this assms(2)] show ?thesis
    by (simp add: crop_direct_def assms(1))
qed

lemma crop_scaled_overflow:
  assumes "clamp_scaled rnd sx sy mx my ow oh bx = (f1, f2, f3, f4)"
    and "f1 = PInf \<or> f2 = PInf \<or> f3 = NInf \<or> f4 = NInf"
  shows "crop_scaled rnd sx sy mx my ow oh bx = Inl OverflowError"
proof -
  from clamp_scaled_shape [of rnd sx sy mx my ow oh bx] assms(1) obtain a b c d where
    "(py_max (Fin 0) a, py_max (Fin 0) b, py_min (Fin (of_int ow)) c, py_min (Fin (of_int oh)) d) =
       (f1, f2, f3, f4)" by auto
  from truncate_clamped_overflow [OF this assms(2)] show ?thesis
    by (simp add: crop_scaled_def assms(1))
qed

lemma clamp_direct_cases:
  "clamp_direct rnd m ow oh bx = (f1, f2, f3, f4) \<Longrightarrow>
     (\<exists>x1 y1 x2 y2. (f1, f2, f3, f4) = (Fin x1, Fin y1, Fin x2, Fin y2)) \<or>
     f1 = PInf \<or> f2 = PInf \<or> f3 = NInf \<or> f4 = NInf"
  using clamp_direct_shape [of rnd m ow oh bx] truncate_clamped_cases [of _ _ _ _ _ _ f1 f2 f3 f4]
  by metis

lemma clamp_scaled_cases:
  "clamp_scaled rnd sx sy mx my ow oh bx = (f1, f2, f3, f4) \<Longrightarrow>
     (\<exists>x1 y1 x2 y2. (f1, f2, f3, f4) = (Fin x1, Fin y1, Fin x2, Fin y2)) \<or>
     f1 = PInf \<or> f2 = PInf \<or> f3 = NInf \<or> f4 = NInf"
  using clamp_scaled_shape [of rnd sx sy mx my ow oh bx] truncate_clamped_cases [of _ _ _ _ _ _ f1 f2 f3 f4]
  by metis

section \<open>Runs and the box loop\<close>

lemma then_run_Nil: "then_run [] r = r"
  by (simp add: then_run_def)

lemma run_seq_None: "run_seq (evs, None) k = then_run evs k"
  by (simp add: run_seq_def)

lemma run_seq_Some: "run_seq (evs, Some e) k = (evs, Some e)"
  by (simp add: run_seq_def)

lemma run_seq_then_run: "run_seq (then_run evs r) k = then_run evs (run_seq r k)"
  by (cases "snd r") (simp_all add: run_seq_def then_run_def)

lemma fst_run_seq: "set (fst (run_seq r k)) \<subseteq> set (fst r) \<union> set (fst k)"
  by (cases "snd r") (auto simp: run_seq_def then_run_def)

lemma snd_run_seq: "snd (run_seq r k) = Some e \<Longrightarrow> snd r = Some e \<or> snd k = Some e"
  by (cases "snd r") (auto simp: run_seq_def then_run_def)

lemma crop_loop_append:
  "crop_loop crop out_name img idx (xs @ ys) =
     run_seq (crop_loop crop out_name img idx xs) (crop_loop crop out_name img (idx + length xs) ys)"
proof (induction xs arbitrary: idx)
  case Nil
  show ?case by (simp add: run_seq_None then_run_Nil)
next
  case (Cons b xs)
  show ?case
  proof (cases "crop b")
    case (Inl e)
    then show ?thesis by (simp add: run_seq_Some)
  next
    case (Inr c)
    then show ?thesis using Cons [of "Suc idx"] by (simp add: run_seq_then_run)
  qed
qed

lemma crop_loop_events:
  "fst (crop_loop crop out_name img idx boxes) =
     map (\<lambda>(i, b). Saved (out_name i) img (projr (crop b)))
       (filter (\<lambda>(i, b). \<not> degenerate (projr (crop b)))
          (takeWhile (\<lambda>(i, b). \<not> isl (crop b)) (List.enumerate idx boxes)))"
proof (induction boxes arbitrary: idx)
  case Nil
  show ?case by simp
next
  case (Cons b boxes)
  show ?case
  proof (cases "crop b")
    case (Inl e)
    then show ?thesis by simp
  next
    case (Inr c)
    then show ?thesis using Cons [of "Suc idx"] by (simp add: then_run_def)
  qed
qed

lemma crop_loop_error:
  "snd (crop_loop crop out_name img idx boxes) =
     (case List.find (\<lambda>b. isl (crop b)) boxes of None \<Rightarrow> None | Some b \<Rightarrow> Some (projl (crop b)))"
proof (induction boxes arbitrary: idx)
  case Nil
  show ?case by simp
next
  case (Cons b boxes)
  show ?case
  proof (cases "crop b")
    case (Inl e)
    then show ?thesis by simp
  next
    case (Inr c)
    then show ?thesis using Cons [of "Suc idx"] by (simp add: then_run_def)
  qed
qed

lemma crop_loop_Saved:
  "Saved name img' c \<in> set (fst (crop_loop crop out_name img idx boxes)) \<Longrightarrow>
     img' = img \<and> \<not> degenerate c \<and>
     (\<exists>i<length boxes. crop (boxes ! i) = Inr c \<and> name = out_name (idx + i))"
proof (induction boxes arbitrary: idx)
  case Nil
  then show ?case by simp
next
  case (Cons b boxes)
  from Cons.prems obtain c0 where c0: "crop b = Inr c0"
    by (cases "crop b") auto
  show ?case
  proof (cases "Saved name img' c \<in> set (fst (crop_loop crop out_name img (Suc idx) boxes))")
    case True
    from Cons.IH [OF True] obtain i where i: "i < length boxes" "crop (boxes ! i) = Inr c"
      "name = out_name (Suc idx + i)" and r: "img' = img" "\<not> degenerate c"
      by auto
    have "Suc i < length (b # boxes) \<and> crop ((b # boxes) ! Suc i) = Inr c \<and> name = out_name (idx + Suc i)"
      using i by simp
    then show ?thesis using r by blast
  next
    case False
    with Cons.prems c0 have h: "\<not> degenerate c0" "name = out_name idx" "img' = img" "c = c0"
      by (auto simp: then_run_def split: if_splits)
    have "0 < length (b # boxes) \<and> crop ((b # boxes) ! 0) = Inr c \<and> name = out_name (idx + 0)"
      using h c0 by simp
    then show ?thesis using h by auto
  qed
qed

lemma crop_loop_no_NotFound:
  "LayoutNotFound p \<notin> set (fst (crop_loop crop out_name img idx boxes))"
  by (auto simp: crop_loop_events)

lemma crop_loop_raises:
  "snd (crop_loop crop out_name img idx boxes) = Some e \<Longrightarrow> \<exists>b\<in>set boxes. crop b = Inl e"
proof (induction boxes arbitrary: idx)
  case Nil
  then show ?case by simp
next
  case (Cons b boxes)
  show ?case
  proof (cases "crop b")
    case (Inl e')
    then show ?thesis using Cons.prems by simp
  next
    case (Inr c)
    then have "snd (crop_loop crop out_name img (Suc idx) boxes) = Some e"
      using Cons.prems by (simp add: then_run_def split: if_splits)
    from Cons.IH [OF this] show ?thesis by auto
  qed
qed

lemma crop_loop_head_skipped:
  assumes "crop b = Inr c"
  shows "(crop_loop crop out_name img idx (b # boxes) = crop_loop crop out_name img (Suc idx) boxes) =
     degenerate c"
proof (cases "degenerate c")
  case True
  then show ?thesis using assms by simp
next
  case False
  have "length (fst (crop_loop crop out_name img idx (b # boxes))) =
        Suc (length (fst (crop_loop crop out_name img (Suc idx) boxes)))"
    using False assms by (simp add: then_run_def)
  then have "crop_loop crop out_name img idx (b # boxes) \<noteq> crop_loop crop out_name img (Suc idx) boxes"
    by (metis n_not_Suc_n)
  then show ?thesis using False by simp
qed

lemma crop_loop_skip:
  assumes "crop b = Inr c" and "degenerate c"
  shows "crop_loop crop out_name img idx [b] = ([], None)"
    and "crop_loop crop out_name img idx (pre @ b # post) =
       run_seq (crop_loop crop out_name img idx pre) (crop_loop crop out_name img (Suc (idx + length pre)) post)"
  using assms by (simp_all add: crop_loop_append)

lemma crop_loop_raise:
  assumes "crop b = Inl e"
  shows "crop_loop crop out_name img idx (b # post) = ([], Some e)"
    and "crop_loop crop out_name img idx (pre @ b # post) =
       run_seq (crop_loop crop out_name img idx pre) ([], Some e)"
  using assms by (simp_all add: crop_loop_append)

section \<open>What the croppers write\<close>

lemma within_pageI:
  "0 \<le> a \<and> 0 \<le> b \<and> c \<le> ow \<and> d \<le> oh \<Longrightarrow> \<not> degenerate (a, b, c, d) \<Longrightarrow>
     within_page (ow, oh) (a, b, c, d)"
  by (auto simp: within_page_def degenerate_def)

lemma py_index_Inr: "py_index xs i = Inr x \<Longrightarrow> x \<in> set xs"
  by (auto simp: py_index_def split: if_splits)

lemma py_index_Inl: "py_index xs i = Inl e \<Longrightarrow> e = IndexError"
  by (auto simp: py_index_def split: if_splits)

lemma truediv_Inl: "truediv rnd a b = Inl e \<Longrightarrow> e = ZeroDivisionError \<or> e = OverflowError"
  by (auto simp: truediv_def split: if_splits pyfloat.splits)

lemma crop_page_found:
  assumes "py_index (pdf_pages w) (page pd - 1) = Inr (orig_w, orig_h)"
    and "find_layout_file (page pd - 1) layout_images = Some f" and "f \<noteq> []"
    and "image_size w f = (layout_w, layout_h)"
    and "truediv rnd orig_w layout_w = Inr scale_x" and "truediv rnd orig_h layout_h = Inr scale_y"
  shows "crop_page rnd w layout_images doc_key mx my pd =
     crop_loop (crop_scaled rnd scale_x scale_y mx my orig_w orig_h)
       (page_out_name doc_key (page pd)) (orig_w, orig_h) 0 (bboxes pd)"
  using assms by (simp add: crop_page_def Let_def)

lemma crop_page_cases:
  obtains e where "crop_page rnd w layout_images doc_key mx my pd = ([], Some e)"
      and "e = IndexError \<or> e = ZeroDivisionError \<or> e = OverflowError"
  | orig_w orig_h where "py_index (pdf_pages w) (page pd - 1) = Inr (orig_w, orig_h)"
      and "crop_page rnd w layout_images doc_key mx my pd = ([LayoutNotFound (page pd - 1)], None)"
  | orig_w orig_h scale_x scale_y where "py_index (pdf_pages w) (page pd - 1) = Inr (orig_w, orig_h)"
      and "crop_page rnd w layout_images doc_key mx my pd =
        crop_loop (crop_scaled rnd scale_x scale_y mx my orig_w orig_h)
          (page_out_name doc_key (page pd)) (orig_w, orig_h) 0 (bboxes pd)"
proof (cases "py_index (pdf_pages w) (page pd - 1)")
  case (Inl e)
  then have "crop_page rnd w layout_images doc_key mx my pd = ([], Some e)"
    by (simp add: crop_page_def Let_def)
  then show ?thesis using that(1) py_index_Inl [OF Inl] by blast
next
  case (Inr im)
  obtain ow oh where im: "im = (ow, oh)" by (cases im)
  define m where "m = find_layout_file (page pd - 1) layout_images"
  show ?thesis
  proof (cases "m = None \<or> m = Some []")
    case True
    then have "crop_page rnd w layout_images doc_key mx my pd = ([LayoutNotFound (page pd - 1)], None)"
      using Inr im by (auto simp: crop_page_def Let_def m_def)
    then show ?thesis using that(2) Inr im by blast
  next
    case False
    then obtain f where f: "m = Some f" "f \<noteq> []" by (cases m) auto
    obtain lw lh where ls: "image_size w f = (lw, lh)" by (cases "image_size w f")
    show ?thesis
    proof (cases "truediv rnd ow lw")
      case (Inl e)
      then have "crop_page rnd w layout_images doc_key mx my pd = ([], Some e)"
        using Inr im f ls by (simp add: crop_page_def Let_def m_def [symmetric])
      then show ?thesis using that(1) truediv_Inl [OF Inl] by blast
    next
      case sx: (Inr sx)
      show ?thesis
      proof (cases "truediv rnd oh lh")
        case (Inl e)
        then have "crop_page rnd w layout_images doc_key mx my pd = ([], Some e)"
          using Inr im f ls sx by (simp add: crop_page_def Let_def m_def [symmetric])
        then show ?thesis using that(1) truediv_Inl [OF Inl] by blast
      next
        case sy: (Inr sy)
        have "crop_page rnd w layout_images doc_key mx my pd =
          crop_loop (crop_scaled rnd sx sy mx my ow oh) (page_out_name doc_key (page pd)) (ow, oh) 0 (bboxes pd)"
          using Inr im f ls sx sy by (simp add: crop_page_def Let_def m_def [symmetric])
        then show ?thesis using that(3) Inr im by blast
      qed
    qed
  qed
qed

lemma crop_page_Saved:
  assumes "Saved name img c \<in> set (fst (crop_page rnd w layout_images doc_key mx my pd))"
  shows "py_index (pdf_pages w) (page pd - 1) = Inr img \<and> within_page img c \<and>
         (\<exists>idx<length (bboxes pd). name = page_out_name doc_key (page pd) idx)"
proof (cases rule: crop_page_cases [of rnd w layout_images doc_key mx my pd])
  case (1 e)
  then show ?thesis using assms by simp
next
  case (2 ow oh)
  then show ?thesis using assms by simp
next
  case (3 ow oh sx sy)
  from assms [unfolded 3(2), THEN crop_loop_Saved]
  obtain i where i: "img = (ow, oh)" "\<not> degenerate c" "i < length (bboxes pd)"
    "crop_scaled rnd sx sy mx my ow oh (bboxes pd ! i) = Inr c" "name = page_out_name doc_key (page pd) (0 + i)"
    by auto
  obtain a b c' d where c: "c = (a, b, c', d)" by (cases c)
  have "0 \<le> a \<and> 0 \<le> b \<and> c' \<le> ow \<and> d \<le> oh"
    using i(4) c crop_scaled_bounds [of rnd sx sy mx my ow oh "bboxes pd ! i" a b c' d] by simp
  then have "within_page (ow, oh) c" using i(2) c by (simp add: within_pageI)
  then show ?thesis using i 3(1) by auto
qed

lemma crop_pages_Saved:
  "Saved name img c \<in> set (fst (crop_pages rnd w layout_images doc_key mx my pds)) \<Longrightarrow>
     \<exists>pd\<in>set pds. Saved name img c \<in> set (fst (crop_page rnd w layout_images doc_key mx my pd))"
proof (induction pds)
  case Nil
  then show ?case by simp
next
  case (Cons pd pds)
  then show ?case
    using fst_run_seq [of "crop_page rnd w layout_images doc_key mx my pd"
        "crop_pages rnd w layout_images doc_key mx my pds"]
    by auto
qed

lemma direct_Saved:
  assumes "Saved name img c \<in> set (fst (crop_segments_from_image rnd img0 layout_result m))"
  shows "img = img0 \<and> within_page img c \<and>
         (\<exists>idx<length layout_result. name = image_out_name idx)"
proof -
  obtain ow oh where im: "img0 = (ow, oh)" by (cases img0)
  from assms [unfolded crop_segments_from_image_def im prod.case, THEN crop_loop_Saved]
  obtain i where i: "img = (ow, oh)" "\<not> degenerate c" "i < length layout_result"
    "crop_direct rnd m ow oh (layout_result ! i) = Inr c" "name = image_out_name (0 + i)"
    by auto
  obtain a b c' d where c: "c = (a, b, c', d)" by (cases c)
  have "0 \<le> a \<and> 0 \<le> b \<and> c' \<le> ow \<and> d \<le> oh"
    using i(4) c crop_direct_bounds [of rnd m ow oh "layout_result ! i" a b c' d] by simp
  then have "within_page (ow, oh) c" using i(2) c by (simp add: within_pageI)
  then show ?thesis using i im by auto
qed

lemma crop_page_error:
  assumes "snd (crop_page rnd w layout_images doc_key mx my pd) = Some e"
  shows "e = IndexError \<or> e = ZeroDivisionError \<or> e = OverflowError"
proof (cases rule: crop_page_cases [of rnd w layout_images doc_key mx my pd])
  case (1 e')
  then show ?thesis using assms by simp
next
  case (2 ow oh)
  then show ?thesis using assms by simp
next
  case (3 ow oh sx sy)
  from assms [unfolded 3(2), THEN crop_loop_raises] obtain b where
    "crop_scaled rnd sx sy mx my ow oh b = Inl e" by auto
  then show ?thesis by (simp add: crop_scaled_Inl)
qed

lemma crop_pages_error:
  "snd (crop_pages rnd w layout_images doc_key mx my pds) = Some e \<Longrightarrow>
     e = IndexError \<or> e = ZeroDivisionError \<or> e = OverflowError"
proof (induction pds)
  case Nil
  then show ?case by simp
next
  case (Cons pd pds)
  from Cons.prems have "snd (crop_page rnd w layout_images doc_key mx my pd) = Some e \<or>
      snd (crop_pages rnd w layout_images doc_key mx my pds) = Some e"
    by (simp add: snd_run_seq)
  then show ?case using Cons.IH crop_page_error by blast
qed

lemma degenerate_trunc:
  "degenerate (trunc_rat cx1, trunc_rat cy1, trunc_rat cx2, trunc_rat cy2) =
     (trunc_rat cx2 \<le> trunc_rat cx1 \<or> trunc_rat cy2 \<le> trunc_rat cy1)"
  by (simp add: degenerate_def)

lemma degenerate_of_clamped:
  "cx2 \<le> cx1 \<or> cy2 \<le> cy1 \<Longrightarrow> degenerate (trunc_rat cx1, trunc_rat cy1, trunc_rat cx2, trunc_rat cy2)"
  by (auto simp: degenerate_trunc intro: trunc_rat_mono)

section \<open>Rounding at the powers of two\<close>

lemma bit_length_pow2: "bit_length (2 ^ n) = int n + 1"
proof (induction n)
  case 0
  show ?case by (simp add: bit_length.simps [of 1] bit_length.simps [of 0])
next
  case (Suc n)
  have "bit_length (2 ^ Suc n) = 1 + bit_length (2 ^ Suc n div 2)"
    by (subst bit_length.simps) simp
  then show ?case using Suc by simp
qed

lemma pow2_nat: "pow2 (int n) = 2 ^ n"
  by (simp add: pow2_def)

lemma pow2_add: "pow2 (a + b) = pow2 a * pow2 b"
proof -
  have p: "pow2 e = 2 powi e" for e
    by (simp add: pow2_def power_int_def field_simps)
  show ?thesis by (simp add: p power_int_add)
qed

lemma float_exponent_pow2: "float_exponent (2 ^ n) = int n" "float_exponent (- (2 ^ n)) = int n"
proof -
  have q: "quotient_of (2 ^ n) = (2 ^ n, 1)"
    using quotient_of_int [of "2 ^ n"] by (simp add: Rat.of_int_def)
  show "float_exponent (2 ^ n) = int n"
    by (simp add: float_exponent_def q bit_length_pow2 bit_length.simps [of 1] bit_length.simps [of 0] pow2_nat)
  then show "float_exponent (- (2 ^ n)) = int n"
    by (simp add: float_exponent_def)
qed

lemma round_half_even_of_int: "round_half_even (of_int k) = k"
  by (simp add: round_half_even_def)

lemma round_53_pow2: "round_53 (2 ^ n) = 2 ^ n" "round_53 (- (2 ^ n)) = - (2 ^ n)"
proof -
  have d: "2 ^ n / pow2 (int n - 52) = of_int (2 ^ 52)"
  proof -
    have "pow2 (int n) = pow2 (int n - 52) * pow2 52"
      using pow2_add [of "int n - 52" 52] by simp
    moreover have "pow2 52 = of_int (2 ^ 52)" by (simp add: pow2_def)
    moreover have "pow2 (int n - 52) \<noteq> 0" by (simp add: pow2_def)
    ultimately show ?thesis by (simp add: pow2_nat [symmetric] field_simps del: of_int_power)
  qed
  have m: "of_int (2 ^ 52) * pow2 (int n - 52) = 2 ^ n"
    using d by (simp add: pow2_def field_simps)
  have e: "max (int n) (- 1022) = int n" by simp
  show "round_53 (2 ^ n) = 2 ^ n"
    unfolding round_53_def float_exponent_pow2 e Let_def d round_half_even_of_int m by simp
  have d': "- (2 ^ n) / pow2 (int n - 52) = of_int (- (2 ^ 52))"
    using d by simp
  have m': "of_int (- (2 ^ 52)) * pow2 (int n - 52) = - (2 ^ n)"
    using m by simp
  show "round_53 (- (2 ^ n)) = - (2 ^ n)"
    unfolding round_53_def float_exponent_pow2 e Let_def d' round_half_even_of_int m' by simp
qed

lemma round_double_pow2:
  "round_double (2 ^ n) = (if n < 1024 then Fin (2 ^ n) else PInf)"
  "round_double (- (2 ^ n)) = (if n < 1024 then Fin (- (2 ^ n)) else NInf)"
proof -
  have pos: "(0 :: rat) < 2 ^ n" by simp
  have neg: "\<not> (0 :: rat) < - (2 ^ n)" using pos by linarith
  have i: "(int n < 1024) = (n < 1024)" by simp
  show "round_double (2 ^ n) = (if n < 1024 then Fin (2 ^ n) else PInf)"
    by (simp only: round_double_def Let_def round_53_pow2 float_exponent_pow2 i pos if_True)
  show "round_double (- (2 ^ n)) = (if n < 1024 then Fin (- (2 ^ n)) else NInf)"
    by (simp only: round_double_def Let_def round_53_pow2 float_exponent_pow2 i neg if_False)
qed

lemma double_2_1023: "- (2 ^ 1023) + - (2 ^ 1023) = - ((2 :: rat) ^ 1024)"
  "(2 :: rat) ^ 1023 * 2 = 2 ^ 1024"
proof -
  have "(2 :: rat) ^ Suc 1023 = 2 * 2 ^ 1023" by (rule power_Suc)
  moreover have "Suc 1023 = 1024" by simp
  ultimately have e: "(2 :: rat) ^ 1024 = 2 * 2 ^ 1023" by (simp only:)
  then show "- (2 ^ 1023) + - (2 ^ 1023) = - ((2 :: rat) ^ 1024)"
    by (simp only: minus_add_distrib [symmetric] mult_2)
  show "(2 :: rat) ^ 1023 * 2 = 2 ^ 1024" by (simp only: e mult.commute)
qed

lemma trunc_2_1023: "trunc_rat (2 ^ 1023) = 2 ^ 1023" "trunc_rat (- (2 ^ 1023)) = - (2 ^ 1023)"
  by (simp_all add: trunc_rat_def)

lemma rd0: "round_double 0 = Fin 0"
  by code_simp

lemma rd_small: "round_double 10 = Fin 10" "round_double 5 = Fin 5" "round_double (- 5) = Fin (- 5)"
  "round_double 15 = Fin 15" "round_double 20 = Fin 20" "round_double 25 = Fin 25"
  "round_double 30 = Fin 30" "round_double 40 = Fin 40" "round_double 45 = Fin 45"
  by code_simp+

lemma rd_2_1024: "round_double (2 ^ 1024) = PInf" "round_double (- (2 ^ 1024)) = NInf"
  "round_double (2 ^ 1023) = Fin (2 ^ 1023)" "round_double (- (2 ^ 1023)) = Fin (- (2 ^ 1023))"
proof -
  have a: "\<not> (1024 :: nat) < 1024" "(1023 :: nat) < 1024" by simp_all
  show "round_double (2 ^ 1024) = PInf" "round_double (- (2 ^ 1024)) = NInf"
    "round_double (2 ^ 1023) = Fin (2 ^ 1023)" "round_double (- (2 ^ 1023)) = Fin (- (2 ^ 1023))"
    by (simp_all only: round_double_pow2 a if_True if_False)
qed

section \<open>Boxes of zero width and boxes without margin\<close>

lemma py_max_Fin: "py_max (Fin a) (Fin b) = Fin (max a b)"
  by (simp add: py_max_def max_def)

lemma py_min_Fin: "py_min (Fin a) (Fin b) = Fin (min a b)"
  by (simp add: py_min_def min_def)

lemma fsub_Fin: "fsub rnd (Fin a) (Fin b) = rnd (a - b)"
  by (simp add: fsub_def fneg_def)

lemma zero_width_scaled:
  assumes "rnd 0 = Fin 0" and "fmul rnd x1 scale_x = Fin s" and "fmul rnd x2 scale_x = Fin s"
    and "rnd s = Fin s"
    and "clamp_scaled rnd scale_x scale_y (Fin m) margin_y_ratio orig_w orig_h (x1, y1, x2, y2) =
         (fx1, Fin cy1, fx2, Fin cy2)"
  shows "\<exists>c. crop_scaled rnd scale_x scale_y (Fin m) margin_y_ratio orig_w orig_h (x1, y1, x2, y2) = Inr c \<and>
             degenerate c"
proof -
  have "fx1 = Fin (max 0 s)" "fx2 = Fin (min (of_int orig_w) s)"
    using assms by (simp_all add: clamp_scaled_def Let_def fsub_Fin py_max_Fin py_min_Fin)
  then have "crop_scaled rnd scale_x scale_y (Fin m) margin_y_ratio orig_w orig_h (x1, y1, x2, y2) =
      Inr (trunc_rat (max 0 s), trunc_rat cy1, trunc_rat (min (of_int orig_w) s), trunc_rat cy2)"
    by (simp add: crop_scaled_def assms(5) truncate_box_Fin)
  moreover have "degenerate (trunc_rat (max 0 s), trunc_rat cy1, trunc_rat (min (of_int orig_w) s), trunc_rat cy2)"
    by (rule degenerate_of_clamped) (auto simp: min_def max_def)
  ultimately show ?thesis by blast
qed

lemma zero_width_direct:
  assumes "rnd 0 = Fin 0" and "rnd x = Fin x"
    and "clamp_direct rnd (Fin m) orig_w orig_h (Fin x, y1, Fin x, y2) = (fx1, Fin cy1, fx2, Fin cy2)"
  shows "\<exists>c. crop_direct rnd (Fin m) orig_w orig_h (Fin x, y1, Fin x, y2) = Inr c \<and> degenerate c"
proof -
  have "fx1 = Fin (max 0 x)" "fx2 = Fin (min (of_int orig_w) x)"
    using assms by (simp_all add: clamp_direct_def Let_def fsub_Fin py_max_Fin py_min_Fin)
  then have "crop_direct rnd (Fin m) orig_w orig_h (Fin x, y1, Fin x, y2) =
      Inr (trunc_rat (max 0 x), trunc_rat cy1, trunc_rat (min (of_int orig_w) x), trunc_rat cy2)"
    by (simp add: crop_direct_def assms(3) truncate_box_Fin)
  moreover have "degenerate (trunc_rat (max 0 x), trunc_rat cy1, trunc_rat (min (of_int orig_w) x), trunc_rat cy2)"
    by (rule degenerate_of_clamped) (auto simp: min_def max_def)
  ultimately show ?thesis by blast
qed

lemma clamp_direct_no_margin:
  assumes "rnd 0 = Fin 0" "rnd x1 = Fin x1" "rnd y1 = Fin y1" "rnd x2 = Fin x2" "rnd y2 = Fin y2"
    and "rnd (x2 - x1) = Fin w" and "rnd (y2 - y1) = Fin h"
  shows "clamp_direct rnd (Fin 0) orig_w orig_h (Fin x1, Fin y1, Fin x2, Fin y2) =
     (py_max (Fin 0) (Fin x1), py_max (Fin 0) (Fin y1),
      py_min (Fin (of_int orig_w)) (Fin x2), py_min (Fin (of_int orig_h)) (Fin y2))"
  using assms by (simp add: clamp_direct_def Let_def fsub_Fin)

lemma clamp_scaled_unit:
  assumes "rnd 0 = Fin 0" "rnd x1 = Fin x1" "rnd y1 = Fin y1" "rnd x2 = Fin x2" "rnd y2 = Fin y2"
    and "rnd (x2 - x1) = Fin w" and "rnd (y2 - y1) = Fin h"
  shows "clamp_scaled rnd (Fin 1) (Fin 1) (Fin 0) (Fin 0) orig_w orig_h (Fin x1, Fin y1, Fin x2, Fin y2) =
     (py_max (Fin 0) (Fin x1), py_max (Fin 0) (Fin y1),
      py_min (Fin (of_int orig_w)) (Fin x2), py_min (Fin (of_int orig_h)) (Fin y2))"
  using assms by (simp add: clamp_scaled_def Let_def fsub_Fin)

lemma py_max_inside: "0 \<le> x \<Longrightarrow> py_max (Fin 0) (Fin x) = Fin x"
  by (simp add: py_max_def)

lemma py_min_inside: "x \<le> of_int n \<Longrightarrow> py_min (Fin (of_int n)) (Fin x) = Fin x"
  by (simp add: py_min_def)

section \<open>The scenario boxes under IEEE double rounding\<close>

lemma scenario_clamp_double:
  "clamp_scaled round_double (Fin 2) (Fin 2) (round_double (1 / 20)) (round_double (1 / 20)) 400 200
     (Fin 10, Fin 10, Fin 110, Fin 60) = (Fin 10, Fin 15, Fin 230, Fin 125)"
proof -
  have c: "fmul round_double (Fin 10) (Fin 2) = Fin 20" "fmul round_double (Fin 110) (Fin 2) = Fin 220"
    "fmul round_double (Fin 60) (Fin 2) = Fin 120"
    by code_simp+
  have w: "fsub round_double (Fin 220) (Fin 20) = Fin 200" "fsub round_double (Fin 120) (Fin 20) = Fin 100"
    by code_simp+
  have m: "fmul round_double (round_double (1 / 20)) (Fin 200) = Fin 10"
    "fmul round_double (round_double (1 / 20)) (Fin 100) = Fin 5"
    by code_simp+
  have e: "fsub round_double (Fin 20) (Fin 10) = Fin 10" "fsub round_double (Fin 20) (Fin 5) = Fin 15"
    "fadd round_double (Fin 220) (Fin 10) = Fin 230" "fadd round_double (Fin 120) (Fin 5) = Fin 125"
    by code_simp+
  have p: "py_max (Fin 0) (Fin 10) = Fin 10" "py_max (Fin 0) (Fin 15) = Fin 15"
    "py_min (Fin (of_int 400)) (Fin 230) = Fin 230" "py_min (Fin (of_int 200)) (Fin 125) = Fin 125"
    by (simp_all add: py_max_def py_min_def)
  show ?thesis
    unfolding clamp_scaled_def Let_def prod.case c w m e p ..
qed

lemma truncate_scenario: "truncate_box (Fin 10, Fin 15, Fin 230, Fin 125) = Inr (10, 15, 230, 125)"
  by (simp add: truncate_box_Fin trunc_rat_def)

lemma clamp_direct_double_10_20:
  "clamp_direct round_double (Fin (1 / 2)) 100 100 (Fin 10, Fin 10, Fin 20, Fin 20) =
     (Fin 5, Fin 5, Fin 25, Fin 25)"
proof -
  have w: "fsub round_double (Fin 20) (Fin 10) = Fin 10" by code_simp
  have m: "fmul round_double (Fin (1 / 2)) (Fin 10) = Fin 5" by code_simp
  have e: "fsub round_double (Fin 10) (Fin 5) = Fin 5" "fadd round_double (Fin 20) (Fin 5) = Fin 25"
    by code_simp+
  have p: "py_max (Fin 0) (Fin 5) = Fin 5" "py_min (Fin (of_int 100)) (Fin 25) = Fin 25"
    by (simp_all add: py_max_def py_min_def)
  show ?thesis
    unfolding clamp_direct_def Let_def prod.case w m e p ..
qed

text \<open>The box \<open>(2^1023, 0, -2^1023, 10)\<close> has finite coordinates and a width that overflows
  to minus infinity. With a margin ratio of \<open>1/2\<close> the margin is infinite and so are the
  clamped \<open>x\<close> values; with a margin ratio of \<open>0\<close> the margin is NaN and the clamp returns
  the page bounds.\<close>

lemma overflow_width: "fsub round_double (Fin (- (2 ^ 1023))) (Fin (2 ^ 1023)) = NInf"
  by (simp only: fsub_def fneg_def pyfloat.case fadd.simps double_2_1023 rd_2_1024)

lemma clamp_direct_overflow_half:
  "clamp_direct round_double (Fin (1 / 2)) 100 100 (Fin (2 ^ 1023), Fin 0, Fin (- (2 ^ 1023)), Fin 10) =
     (PInf, Fin 0, NInf, Fin 15)"
proof -
  have h: "fsub round_double (Fin 10) (Fin 0) = Fin 10" by code_simp
  have mx: "fmul round_double (Fin (1 / 2)) NInf = NInf" by simp
  have my: "fmul round_double (Fin (1 / 2)) (Fin 10) = Fin 5" by code_simp
  have x1: "fsub round_double (Fin (2 ^ 1023)) NInf = PInf"
    by (simp only: fsub_def fneg_def pyfloat.case fadd.simps)
  have y1: "fsub round_double (Fin 0) (Fin 5) = Fin (- 5)" by code_simp
  have x2: "fadd round_double (Fin (- (2 ^ 1023))) NInf = NInf"
    by (simp only: fadd.simps)
  have y2: "fadd round_double (Fin 10) (Fin 5) = Fin 15" by code_simp
  have p: "py_max (Fin 0) PInf = PInf" "py_max (Fin 0) (Fin (- 5)) = Fin 0"
    "py_min (Fin (of_int 100)) NInf = NInf" "py_min (Fin (of_int 100)) (Fin 15) = Fin 15"
    by (simp_all add: py_max_def py_min_def)
  show ?thesis
    unfolding clamp_direct_def Let_def prod.case overflow_width h mx my x1 y1 x2 y2 p ..
qed

lemma clamp_direct_overflow_zero:
  "clamp_direct round_double (Fin 0) 100 100 (Fin (2 ^ 1023), Fin 0, Fin (- (2 ^ 1023)), Fin 10) =
     (Fin 0, Fin 0, Fin 100, Fin 10)"
proof -
  have h: "fsub round_double (Fin 10) (Fin 0) = Fin 10" by code_simp
  have mx: "fmul round_double (Fin 0) NInf = NaN" by simp
  have my: "fmul round_double (Fin 0) (Fin 10) = Fin 0" by code_simp
  have x1: "fsub round_double (Fin (2 ^ 1023)) NaN = NaN"
    by (simp only: fsub_def fneg_def pyfloat.case fadd.simps)
  have y1: "fsub round_double (Fin 0) (Fin 0) = Fin 0" by code_simp
  have x2: "fadd round_double (Fin (- (2 ^ 1023))) NaN = NaN"
    by (simp only: fadd.simps)
  have y2: "fadd round_double (Fin 10) (Fin 0) = Fin 10" by code_simp
  have p: "py_max (Fin 0) NaN = Fin 0" "py_max (Fin 0) (Fin 0) = Fin 0"
    "py_min (Fin (of_int 100)) NaN = Fin 100" "py_min (Fin (of_int 100)) (Fin 10) = Fin 10"
    by (simp_all add: py_max_def py_min_def)
  show ?thesis
    unfolding clamp_direct_def Let_def prod.case overflow_width h mx my x1 y1 x2 y2 p ..
qed

text \<open>The box \<open>(2^1023, 10, 2^1023, 20)\<close> has equal \<open>x\<close> coordinates, which a scale of two
  takes to plus infinity: the scaled width is NaN, and the clamp returns the page width.\<close>

lemma clamp_scaled_overflow_equal:
  "clamp_scaled round_double (Fin 2) (Fin 2) (Fin 0) (Fin 0) 400 200
     (Fin (2 ^ 1023), Fin 10, Fin (2 ^ 1023), Fin 20) = (Fin 0, Fin 20, Fin 400, Fin 40)"
proof -
  have xs: "fmul round_double (Fin (2 ^ 1023)) (Fin 2) = PInf"
    by (simp only: fmul.simps double_2_1023 rd_2_1024)
  have ys: "fmul round_double (Fin 10) (Fin 2) = Fin 20" "fmul round_double (Fin 20) (Fin 2) = Fin 40"
    by code_simp+
  have w: "fsub round_double PInf PInf = NaN"
    by (simp only: fsub_def fneg_def pyfloat.case fadd.simps)
  have h: "fsub round_double (Fin 40) (Fin 20) = Fin 20" by code_simp
  have mx: "fmul round_double (Fin 0) NaN = NaN" by simp
  have my: "fmul round_double (Fin 0) (Fin 20) = Fin 0" by code_simp
  have x1: "fsub round_double PInf NaN = NaN"
    by (simp only: fsub_def fneg_def pyfloat.case fadd.simps)
  have y1: "fsub round_double (Fin 20) (Fin 0) = Fin 20" by code_simp
  have x2: "fadd round_double PInf NaN = NaN"
    by (simp only: fadd.simps)
  have y2: "fadd round_double (Fin 40) (Fin 0) = Fin 40" by code_simp
  have p: "py_max (Fin 0) NaN = Fin 0" "py_max (Fin 0) (Fin 20) = Fin 20"
    "py_min (Fin (of_int 400)) NaN = Fin 400" "py_min (Fin (of_int 200)) (Fin 40) = Fin 40"
    by (simp_all add: py_max_def py_min_def)
  show ?thesis
    unfolding clamp_scaled_def Let_def prod.case xs ys w h mx my x1 y1 x2 y2 p ..
qed

section \<open>Substrings and the page matcher\<close>

lemma startswith_iff: "startswith s pre = (\<exists>suf. s = pre @ suf)"
  unfolding startswith_def
  by (metis append_eq_conv_conj append_take_drop_id)

lemma endswith_iff: "endswith s suf = (\<exists>pre. s = pre @ suf)"
proof
  assume "endswith s suf"
  then have "s = take (length s - length suf) s @ suf"
    by (metis append_take_drop_id endswith_def)
  then show "\<exists>pre. s = pre @ suf" ..
next
  assume "\<exists>pre. s = pre @ suf"
  then show "endswith s suf" by (auto simp: endswith_def)
qed

lemma str_in_iff: "str_in sub s = (\<exists>pre suf. s = pre @ sub @ suf)"
proof (induction s)
  case Nil
  then show ?case by simp
next
  case (Cons c cs)
  have "(\<exists>pre suf. c # cs = pre @ sub @ suf) =
        ((\<exists>suf. c # cs = sub @ suf) \<or> (\<exists>pre suf. cs = pre @ sub @ suf))"
  proof
    assume "\<exists>pre suf. c # cs = pre @ sub @ suf"
    then obtain pre suf where e: "c # cs = pre @ sub @ suf" by blast
    show "(\<exists>suf. c # cs = sub @ suf) \<or> (\<exists>pre suf. cs = pre @ sub @ suf)"
    proof (cases pre)
      case Nil
      then show ?thesis using e by auto
    next
      case (Cons a pre')
      then have "cs = pre' @ sub @ suf" using e by simp
      then show ?thesis by blast
    qed
  next
    assume "(\<exists>suf. c # cs = sub @ suf) \<or> (\<exists>pre suf. cs = pre @ sub @ suf)"
    then show "\<exists>pre suf. c # cs = pre @ sub @ suf"
    proof
      assume "\<exists>suf. c # cs = sub @ suf"
      then obtain suf where "c # cs = [] @ sub @ suf" by auto
      then show ?thesis by blast
    next
      assume "\<exists>pre suf. cs = pre @ sub @ suf"
      then obtain pre suf where "c # cs = (c # pre) @ sub @ suf" by auto
      then show ?thesis by blast
    qed
  qed
  then show ?case using Cons by (simp add: startswith_iff)
qed

lemma find_layout_file_None:
  "(find_layout_file p names = None) = (\<forall>f\<in>set names. \<not> page_match p f)"
  by (induction names) auto

lemma find_layout_file_Some:
  "(find_layout_file p names = Some f) =
     (\<exists>i<length names. names ! i = f \<and> page_match p f \<and> (\<forall>j<i. \<not> page_match p (names ! j)))"
proof (induction names)
  case Nil
  then show ?case by simp
next
  case (Cons n names)
  show ?case
  proof (cases "page_match p n")
    case True
    have "(\<exists>i<length (n # names). (n # names) ! i = f \<and> page_match p f \<and>
            (\<forall>j<i. \<not> page_match p ((n # names) ! j))) = (n = f)"
    proof
      assume "\<exists>i<length (n # names). (n # names) ! i = f \<and> page_match p f \<and>
            (\<forall>j<i. \<not> page_match p ((n # names) ! j))"
      then obtain i where i: "(n # names) ! i = f" "\<forall>j<i. \<not> page_match p ((n # names) ! j)" by blast
      have "i = 0"
      proof (rule ccontr)
        assume "i \<noteq> 0"
        then have "\<not> page_match p ((n # names) ! 0)" using i(2) by blast
        then show False using True by simp
      qed
      then show "n = f" using i(1) by simp
    next
      assume "n = f"
      then have "0 < length (n # names) \<and> (n # names) ! 0 = f \<and> page_match p f \<and>
            (\<forall>j<0. \<not> page_match p ((n # names) ! j))"
        using True by simp
      then show "\<exists>i<length (n # names). (n # names) ! i = f \<and> page_match p f \<and>
            (\<forall>j<i. \<not> page_match p ((n # names) ! j))" by blast
    qed
    then show ?thesis using True by simp
  next
    case False
    have "(\<exists>i<length (n # names). (n # names) ! i = f \<and> page_match p f \<and>
            (\<forall>j<i. \<not> page_match p ((n # names) ! j))) =
          (\<exists>i<length names. names ! i = f \<and> page_match p f \<and> (\<forall>j<i. \<not> page_match p (names ! j)))"
    proof
      assume "\<exists>i<length (n # names). (n # names) ! i = f \<and> page_match p f \<and>
            (\<forall>j<i. \<not> page_match p ((n # names) ! j))"
      then obtain i where i: "i < length (n # names)" "(n # names) ! i = f" "page_match p f"
        "\<forall>j<i. \<not> page_match p ((n # names) ! j)" by blast
      have "i \<noteq> 0" using i(2, 3) False by (cases i) auto
      then obtain k where k: "i = Suc k" by (cases i) auto
      have "\<forall>j<k. \<not> page_match p (names ! j)"
      proof (intro allI impI)
        fix j assume "j < k"
        then have "Suc j < i" using k by simp
        then have "\<not> page_match p ((n # names) ! Suc j)" using i(4) by blast
        then show "\<not> page_match p (names ! j)" by simp
      qed
      then have "k < length names \<and> names ! k = f \<and> page_match p f \<and> (\<forall>j<k. \<not> page_match p (names ! j))"
        using i k by simp
      then show "\<exists>i<length names. names ! i = f \<and> page_match p f \<and> (\<forall>j<i. \<not> page_match p (names ! j))"
        by blast
    next
      assume "\<exists>i<length names. names ! i = f \<and> page_match p f \<and> (\<forall>j<i. \<not> page_match p (names ! j))"
      then obtain i where i: "i < length names" "names ! i = f" "page_match p f"
        "\<forall>j<i. \<not> page_match p (names ! j)" by blast
      have "\<forall>j<Suc i. \<not> page_match p ((n # names) ! j)"
      proof (intro allI impI)
        fix j assume "j < Suc i"
        then show "\<not> page_match p ((n # names) ! j)" using i(4) False by (cases j) auto
      qed
      then have "Suc i < length (n # names) \<and> (n # names) ! Suc i = f \<and> page_match p f \<and>
          (\<forall>j<Suc i. \<not> page_match p ((n # names) ! j))"
        using i by simp
      then show "\<exists>i<length (n # names). (n # names) ! i = f \<and> page_match p f \<and>
            (\<forall>j<i. \<not> page_match p ((n # names) ! j))" by blast
    qed
    then show ?thesis using False Cons by simp
  qed
qed

lemma page_match_iff:
  "page_match p fname =
     ((\<exists>pre suf. fname = pre @ ''_'' @ str_int p @ ''_'' @ suf) \<or>
      (\<exists>pre. fname = pre @ ''_'' @ str_int p @ ''_layout.png''))"
  by (simp add: page_match_def str_in_iff endswith_iff)

lemma crop_page_not_found:
  assumes "py_index (pdf_pages w) (page pd - 1) = Inr img"
    and "\<forall>f\<in>set layout_images. \<not> page_match (page pd - 1) f"
  shows "crop_page rnd w layout_images doc_key mx my pd = ([LayoutNotFound (page pd - 1)], None)"
proof -
  have "find_layout_file (page pd - 1) layout_images = None"
    using assms(2) by (simp add: find_layout_file_None)
  then show ?thesis using assms(1) by (cases img) (simp add: crop_page_def Let_def)
qed

section \<open>Decimal numerals and the box number of a file name\<close>

lemma digit_char_is_digit: "d < 10 \<Longrightarrow> is_digit (digit_char d)"
  by (simp add: is_digit_def digit_char_def)

lemma digit_char_val: "d < 10 \<Longrightarrow> (of_char (digit_char d) :: nat) - 48 = d"
  by (simp add: digit_char_def)

lemma str_nat_digits: "\<forall>c\<in>set (str_nat n). is_digit c"
proof (induction n rule: str_nat.induct)
  case (1 n)
  show ?case
  proof (cases "n < 10")
    case True
    then show ?thesis by (simp add: str_nat.simps [of n] digit_char_is_digit)
  next
    case False
    then show ?thesis using 1 by (simp add: str_nat.simps [of n] digit_char_is_digit)
  qed
qed

lemma str_nat_nonempty: "str_nat n \<noteq> []"
  by (simp add: str_nat.simps [of n])

lemma int_of_digits_snoc: "int_of_digits (ds @ [c]) = 10 * int_of_digits ds + (of_char c - 48)"
  by (simp add: int_of_digits_def)

lemma int_of_digits_str_nat: "int_of_digits (str_nat n) = n"
proof (induction n rule: str_nat.induct)
  case (1 n)
  show ?case
  proof (cases "n < 10")
    case True
    then show ?thesis by (simp add: str_nat.simps [of n] int_of_digits_def digit_char_val)
  next
    case False
    then show ?thesis using 1
      by (simp add: str_nat.simps [of n] int_of_digits_snoc digit_char_val)
  qed
qed

lemma takeWhile_digits:
  "\<forall>c\<in>set ds. is_digit c \<Longrightarrow> takeWhile is_digit (ds @ ''.png'') = ds"
proof -
  assume d: "\<forall>c\<in>set ds. is_digit c"
  have nd: "\<not> is_digit CHR ''.''" by (simp add: is_digit_def)
  have "takeWhile is_digit (ds @ ''.png'') = ds @ takeWhile is_digit ''.png''"
    using d by (simp add: takeWhile_append2)
  then show ?thesis using nd by simp
qed

lemma extract_image_out_name: "extract_box_number (image_out_name idx) = enat (idx + 1)"
proof -
  have "re_search_box (''image_box_'' @ str_nat (idx + 1) @ ''.png'') = Some (str_nat (idx + 1))"
  proof -
    have nd: "\<not> is_digit CHR ''.''" by (simp add: is_digit_def)
    show ?thesis
      using nd by (simp add: startswith_def takeWhile_digits str_nat_digits str_nat_nonempty)
  qed
  then show ?thesis
    by (simp add: extract_box_number_def image_out_name_def int_of_digits_str_nat)
qed

section \<open>Stable sorting and the report as a concatenation\<close>

lemma fold_append_concat: "fold (\<lambda>x acc. acc @ g x) xs acc = acc @ concat (map g xs)"
  by (induction xs arbitrary: acc) simp_all

lemma ocr_folder_concat:
  "ocr_folder os_listdir recognition folder_path full_text =
     full_text @ folder_header folder_path @
     concat (map (\<lambda>fname. segment_entry fname (recognition (path_join folder_path fname)))
               (segment_files (os_listdir folder_path)))"
  by (simp add: ocr_folder_def Let_def fold_append_concat)

lemma filter_swap: "filter P (filter Q xs) = filter Q (filter P xs)"
  by (induction xs) simp_all

lemma sort_of_mset: "mset xs = mset ys \<Longrightarrow> sort xs = sort ys"
  by (rule properties_for_sort) simp_all

lemma map_sort_key: "map f (sort_key f xs) = sort (map f xs)"
  by (rule properties_for_sort [symmetric]) simp_all

lemma sort_key_keys_of_mset:
  "mset xs = mset ys \<Longrightarrow> map f (sort_key f xs) = map f (sort_key f ys)"
proof -
  assume "mset xs = mset ys"
  then have "mset (map f xs) = mset (map f ys)" by simp
  then have "sort (map f xs) = sort (map f ys)" by (rule sort_of_mset)
  then show ?thesis by (simp only: map_sort_key)
qed

lemma sort_key_inj_of_mset:
  assumes "mset xs = mset ys" and "inj_on f (set xs)"
  shows "sort_key f xs = sort_key f ys"
  by (rule sort_key_inj_key_eq [OF _ assms(2)]) (simp_all add: assms(1))

lemma sort_key_top_last:
  fixes f :: "'a \<Rightarrow> enat"
  shows "sort_key f xs = sort_key f (filter (\<lambda>x. f x \<noteq> \<infinity>) xs) @ filter (\<lambda>x. f x = \<infinity>) xs"
proof (rule properties_for_sort_key)
  have "mset (filter (\<lambda>x. f x \<noteq> \<infinity>) xs) + mset (filter (\<lambda>x. f x = \<infinity>) xs) = mset xs"
    by (induction xs) simp_all
  then show "mset (sort_key f (filter (\<lambda>x. f x \<noteq> \<infinity>) xs) @ filter (\<lambda>x. f x = \<infinity>) xs) = mset xs"
    by simp
  have "map f (filter (\<lambda>x. f x = \<infinity>) xs) = replicate (length (filter (\<lambda>x. f x = \<infinity>) xs)) \<infinity>"
    by (induction xs) auto
  then have "sorted (map f (filter (\<lambda>x. f x = \<infinity>) xs))"
    by (simp add: sorted_replicate)
  then show "sorted (map f (sort_key f (filter (\<lambda>x. f x \<noteq> \<infinity>) xs) @ filter (\<lambda>x. f x = \<infinity>) xs))"
    by (auto simp: sorted_append)
  fix k
  show "filter (\<lambda>x. f k = f x) (sort_key f (filter (\<lambda>x. f x \<noteq> \<infinity>) xs) @ filter (\<lambda>x. f x = \<infinity>) xs) =
        filter (\<lambda>x. f k = f x) xs"
  proof (cases "f k = \<infinity>")
    case True
    have "filter (\<lambda>x. \<infinity> = f x) (sort_key f (filter (\<lambda>x. f x \<noteq> \<infinity>) xs)) = []"
      by (auto simp: filter_empty_conv)
    moreover have "filter (\<lambda>x. \<infinity> = f x) (filter (\<lambda>x. f x = \<infinity>) xs) = filter (\<lambda>x. \<infinity> = f x) xs"
      by (simp add: eq_commute [of \<infinity>])
    ultimately show ?thesis using True by simp
  next
    case False
    have "filter (\<lambda>x. f x = f k) (sort_key f (filter (\<lambda>x. f x \<noteq> \<infinity>) xs)) =
          filter (\<lambda>x. f x = f k) (filter (\<lambda>x. f x \<noteq> \<infinity>) xs)"
      by (rule sort_key_stable)
    also have "\<dots> = filter (\<lambda>x. f x = f k) xs"
      using False by (induction xs) auto
    finally have a: "filter (\<lambda>x. f k = f x) (sort_key f (filter (\<lambda>x. f x \<noteq> \<infinity>) xs)) =
          filter (\<lambda>x. f k = f x) xs"
      by (simp add: eq_commute [of "f k"])
    have b: "filter (\<lambda>x. f k = f x) (filter (\<lambda>x. f x = \<infinity>) xs) = []"
      using False by (auto simp: filter_empty_conv)
    show ?thesis by (simp only: filter_append a b append_Nil2)
  qed
qed

section \<open>Stripping and the segment text\<close>

lemma segment_text_of_concat:
  "segment_text_of preds = concat (map (\<lambda>line. line @ NL) (concat preds))"
proof -
  have inner: "fold (\<lambda>line segment_text. segment_text @ line @ NL) pred acc =
        acc @ concat (map (\<lambda>line. line @ NL) pred)" for pred acc
    by (induction pred arbitrary: acc) simp_all
  have outer: "fold (\<lambda>pred segment_text. fold (\<lambda>line segment_text. segment_text @ line @ NL) pred segment_text)
          ps acc = acc @ concat (map (\<lambda>line. line @ NL) (concat ps))" for ps acc
    by (induction ps arbitrary: acc) (simp_all add: inner)
  show ?thesis by (simp add: segment_text_of_def outer)
qed

lemma py_strip_empty_iff: "(py_strip s = []) = (\<forall>c\<in>set s. is_space c)"
proof
  assume "py_strip s = []"
  then have all: "\<forall>c\<in>set (dropWhile is_space s). is_space c"
    by (simp add: py_strip_def)
  have "dropWhile is_space s = []"
  proof (rule ccontr)
    assume ne: "dropWhile is_space s \<noteq> []"
    then have "\<not> is_space (hd (dropWhile is_space s))" by (rule hd_dropWhile)
    moreover have "hd (dropWhile is_space s) \<in> set (dropWhile is_space s)" using ne by simp
    ultimately show False using all by blast
  qed
  then show "\<forall>c\<in>set s. is_space c" by simp
next
  assume "\<forall>c\<in>set s. is_space c"
  then have "dropWhile is_space s = []" by simp
  then show "py_strip s = []" by (simp only: py_strip_def rev.simps dropWhile.simps)
qed

lemma py_strip_decompose:
  "\<exists>pre suf. s = pre @ py_strip s @ suf \<and> (\<forall>c\<in>set pre. is_space c) \<and> (\<forall>c\<in>set suf. is_space c)"
proof -
  define pre where "pre = takeWhile is_space s"
  define t where "t = dropWhile is_space s"
  define suf where "suf = rev (takeWhile is_space (rev t))"
  have "rev t = takeWhile is_space (rev t) @ dropWhile is_space (rev t)" by simp
  then have "t = rev (dropWhile is_space (rev t)) @ rev (takeWhile is_space (rev t))"
    by (metis rev_append rev_rev_ident)
  then have t: "t = py_strip s @ suf" by (simp add: py_strip_def t_def suf_def)
  have "s = pre @ t" by (simp add: pre_def t_def)
  then have "s = pre @ py_strip s @ suf" using t by simp
  moreover have "\<forall>c\<in>set pre. is_space c" unfolding pre_def by (meson set_takeWhileD)
  moreover have "\<forall>c\<in>set suf. is_space c" unfolding suf_def by (metis set_rev set_takeWhileD)
  ultimately show ?thesis by blast
qed

lemma py_strip_ends:
  "py_strip s \<noteq> [] \<Longrightarrow> \<not> is_space (hd (py_strip s)) \<and> \<not> is_space (last (py_strip s))"
proof -
  assume ne: "py_strip s \<noteq> []"
  define t where "t = dropWhile is_space s"
  define u where "u = dropWhile is_space (rev t)"
  have ps: "py_strip s = rev u" by (simp add: py_strip_def t_def u_def)
  have une: "u \<noteq> []" using ne ps by simp
  then have l: "\<not> is_space (hd u)" unfolding u_def by (rule hd_dropWhile)
  have tne: "t \<noteq> []" using une u_def by auto
  then have ht: "\<not> is_space (hd t)" unfolding t_def by (rule hd_dropWhile)
  obtain v where v: "rev t = v @ u" unfolding u_def by (metis takeWhile_dropWhile_id)
  then have "t = rev u @ rev v" by (metis rev_append rev_rev_ident)
  then have "hd t = hd (rev u)" using une by simp
  then have "\<not> is_space (hd (py_strip s))" using ht ps by simp
  moreover have "last (py_strip s) = hd u" using une ps by (simp add: last_rev)
  ultimately show ?thesis using l by simp
qed

lemma ocr_segments_concat:
  "ocr_segments os_listdir recognition segment_folders =
     concat (map (\<lambda>folder_path. folder_header folder_path @
                    concat (map (\<lambda>fname. segment_entry fname (recognition (path_join folder_path fname)))
                              (segment_files (os_listdir folder_path))))
               segment_folders)"
proof -
  have "ocr_folder os_listdir recognition =
        (\<lambda>folder_path acc. acc @ (folder_header folder_path @
           concat (map (\<lambda>fname. segment_entry fname (recognition (path_join folder_path fname)))
                     (segment_files (os_listdir folder_path)))))"
    by (intro ext) (simp add: ocr_folder_concat)
  then show ?thesis
    by (simp only: ocr_segments_def fold_append_concat append_Nil)
qed

lemma strip_sentinel: "py_strip ''<No Text Detected>'' = ''<No Text Detected>''"
  by code_simp

section \<open>Segment bounds\<close>

text \<open>
  Claim C1. Every segment either cropper writes lies inside the page render it is cropped
  from, with positive width and height: for a \<open>Saved\<close> event with crop box
  \<open>(x1, y1, x2, y2)\<close> on an image of size \<open>(page_width, page_height)\<close>,
  \<open>0 \<le> x1 < x2 \<le> page_width\<close> and \<open>0 \<le> y1 < y2 \<le> page_height\<close>. In direct mode the
  image is the input image; in document mode it is the render that the page number of
  one of the document's page entries indexes. This holds for every rounding of the
  float operations, for boxes and ratios that are infinite or NaN too, and for the
  segments written before a run ends with an exception.
\<close>

theorem segment_within_page:
  "(Saved name img c \<in> set (fst (crop_segments_from_image rnd img0 layout_result margin_ratio)) \<longrightarrow>
      img = img0 \<and> within_page img c) \<and>
   (Saved name img c \<in> set (fst (crop_clean_segments_with_margin rnd w layout_data margin_x_ratio margin_y_ratio)) \<longrightarrow>
      within_page img c \<and>
      (\<exists>pd\<in>set (snd (hd layout_data)). py_index (pdf_pages w) (page pd - 1) = Inr img))"
proof (intro conjI impI)
  assume "Saved name img c \<in> set (fst (crop_segments_from_image rnd img0 layout_result margin_ratio))"
  from direct_Saved [OF this] show "img = img0" "within_page img c" by auto
next
  assume a: "Saved name img c \<in> set (fst (crop_clean_segments_with_margin rnd w layout_data margin_x_ratio margin_y_ratio))"
  then have one: "length layout_data = 1"
    by (auto simp: crop_clean_segments_with_margin_def split: if_splits)
  from a one obtain pd where pd: "pd \<in> set (snd (hd layout_data))"
    "Saved name img c \<in> set (fst (crop_page rnd w (filter (\<lambda>f. endswith f ''_layout.png'') (listdir w))
       (fst (hd layout_data)) margin_x_ratio margin_y_ratio pd))"
    by (auto simp: crop_clean_segments_with_margin_def Let_def dest!: crop_pages_Saved)
  from crop_page_Saved [OF pd(2)] pd(1)
  show "within_page img c"
    "\<exists>pd\<in>set (snd (hd layout_data)). py_index (pdf_pages w) (page pd - 1) = Inr img"
    by auto
qed

theorem segment_within_page_witness:
  "Saved ''image_box_1.png'' (100, 100) (10, 10, 20, 20)
     \<in> set (fst (crop_segments_from_image Fin (100, 100) [(Fin 10, Fin 10, Fin 20, Fin 20)] (Fin 0))) \<and>
   within_page (100, 100) (10, 10, 20, 20) \<and>
   Saved ''doc_page_1_box_1.png'' (400, 200) (10, 15, 230, 125)
     \<in> set (fst (crop_clean_segments_with_margin Fin
          \<lparr>pdf_pages = [(400, 200)], listdir = [''doc_0_layout.png''], image_size = (\<lambda>f. (200, 100))\<rparr>
          [(''doc'', [\<lparr>page = 1, bboxes = [(Fin 10, Fin 10, Fin 110, Fin 60)]\<rparr>])] (Fin (1 / 20)) (Fin (1 / 20)))) \<and>
   within_page (400, 200) (10, 15, 230, 125)"
proof -
  have a: "Saved ''image_box_1.png'' (100, 100) (10, 10, 20, 20)
     \<in> set (fst (crop_segments_from_image Fin (100, 100) [(Fin 10, Fin 10, Fin 20, Fin 20)] (Fin 0)))"
    by code_simp
  have b: "Saved ''doc_page_1_box_1.png'' (400, 200) (10, 15, 230, 125)
     \<in> set (fst (crop_clean_segments_with_margin Fin
          \<lparr>pdf_pages = [(400, 200)], listdir = [''doc_0_layout.png''], image_size = (\<lambda>f. (200, 100))\<rparr>
          [(''doc'', [\<lparr>page = 1, bboxes = [(Fin 10, Fin 10, Fin 110, Fin 60)]\<rparr>])] (Fin (1 / 20)) (Fin (1 / 20))))"
    by code_simp
  from a segment_within_page [where name = "''image_box_1.png''" and img = "(100, 100)"
      and c = "(10, 10, 20, 20)" and rnd = Fin and ?img0.0 = "(100, 100)"
      and layout_result = "[(Fin 10, Fin 10, Fin 20, Fin 20)]" and margin_ratio = "Fin 0"]
  have c: "within_page (100, 100) (10, 10, 20, 20)" by blast
  from b segment_within_page [where name = "''doc_page_1_box_1.png''" and img = "(400, 200)"
      and c = "(10, 15, 230, 125)" and rnd = Fin
      and w = "\<lparr>pdf_pages = [(400, 200)], listdir = [''doc_0_layout.png''], image_size = (\<lambda>f. (200, 100))\<rparr>"
      and layout_data = "[(''doc'', [\<lparr>page = 1, bboxes = [(Fin 10, Fin 10, Fin 110, Fin 60)]\<rparr>])]"
      and margin_x_ratio = "Fin (1 / 20)" and margin_y_ratio = "Fin (1 / 20)"]
  have d: "within_page (400, 200) (10, 15, 230, 125)" by blast
  from a b c d show ?thesis by blast
qed

section \<open>The test reads the truncated box\<close>

text \<open>
  Claim C9. The test of lines 96 and 135 reads the truncated integers: in both modes,
  when the clamped values \<open>(x1', y1', x2', y2')\<close> are finite, the first box of a list is
  skipped (the loop yields what it yields on the rest, with the counter advanced) exactly
  when \<open>int(x2') \<le> int(x1')\<close> or \<open>int(y2') \<le> int(y1')\<close>; so a box of positive real width
  that truncates to equal integers is skipped too. The clamped values are never NaN; when
  one of them is infinite, which for the lower ones is plus infinity and for the upper
  ones minus infinity, \<^verbatim>\<open>int\<close> raises before the test and the loop ends with
  \<^verbatim>\<open>OverflowError\<close>.
\<close>

theorem skip_tests_truncated_box:
  "(clamp_direct rnd margin_ratio orig_w orig_h b = (Fin cx1, Fin cy1, Fin cx2, Fin cy2) \<longrightarrow>
      (crop_loop (crop_direct rnd margin_ratio orig_w orig_h) out_name img idx (b # boxes) =
         crop_loop (crop_direct rnd margin_ratio orig_w orig_h) out_name img (Suc idx) boxes) =
      (trunc_rat cx2 \<le> trunc_rat cx1 \<or> trunc_rat cy2 \<le> trunc_rat cy1)) \<and>
   (clamp_scaled rnd scale_x scale_y margin_x_ratio margin_y_ratio orig_w orig_h b =
      (Fin cx1, Fin cy1, Fin cx2, Fin cy2) \<longrightarrow>
      (crop_loop (crop_scaled rnd scale_x scale_y margin_x_ratio margin_y_ratio orig_w orig_h) out_name img idx
           (b # boxes) =
         crop_loop (crop_scaled rnd scale_x scale_y margin_x_ratio margin_y_ratio orig_w orig_h) out_name img
           (Suc idx) boxes) =
      (trunc_rat cx2 \<le> trunc_rat cx1 \<or> trunc_rat cy2 \<le> trunc_rat cy1)) \<and>
   (clamp_direct rnd margin_ratio orig_w orig_h b = (fx1, fy1, fx2, fy2) \<longrightarrow>
      (\<exists>x1 y1 x2 y2. (fx1, fy1, fx2, fy2) = (Fin x1, Fin y1, Fin x2, Fin y2)) \<or>
      (fx1 = PInf \<or> fy1 = PInf \<or> fx2 = NInf \<or> fy2 = NInf) \<and>
      crop_loop (crop_direct rnd margin_ratio orig_w orig_h) out_name img idx (b # boxes) =
        ([], Some OverflowError)) \<and>
   (clamp_scaled rnd scale_x scale_y margin_x_ratio margin_y_ratio orig_w orig_h b = (fx1, fy1, fx2, fy2) \<longrightarrow>
      (\<exists>x1 y1 x2 y2. (fx1, fy1, fx2, fy2) = (Fin x1, Fin y1, Fin x2, Fin y2)) \<or>
      (fx1 = PInf \<or> fy1 = PInf \<or> fx2 = NInf \<or> fy2 = NInf) \<and>
      crop_loop (crop_scaled rnd scale_x scale_y margin_x_ratio margin_y_ratio orig_w orig_h) out_name img idx
          (b # boxes) = ([], Some OverflowError))"
proof (intro conjI impI)
  assume a: "clamp_direct rnd margin_ratio orig_w orig_h b = (Fin cx1, Fin cy1, Fin cx2, Fin cy2)"
  have "crop_direct rnd margin_ratio orig_w orig_h b =
      Inr (trunc_rat cx1, trunc_rat cy1, trunc_rat cx2, trunc_rat cy2)"
    by (simp add: crop_direct_def a truncate_box_Fin)
  from crop_loop_head_skipped [where crop = "crop_direct rnd margin_ratio orig_w orig_h" and b = b, OF this]
  show "(crop_loop (crop_direct rnd margin_ratio orig_w orig_h) out_name img idx (b # boxes) =
         crop_loop (crop_direct rnd margin_ratio orig_w orig_h) out_name img (Suc idx) boxes) =
      (trunc_rat cx2 \<le> trunc_rat cx1 \<or> trunc_rat cy2 \<le> trunc_rat cy1)"
    by (simp only: degenerate_trunc)
next
  assume a: "clamp_scaled rnd scale_x scale_y margin_x_ratio margin_y_ratio orig_w orig_h b =
      (Fin cx1, Fin cy1, Fin cx2, Fin cy2)"
  have "crop_scaled rnd scale_x scale_y margin_x_ratio margin_y_ratio orig_w orig_h b =
      Inr (trunc_rat cx1, trunc_rat cy1, trunc_rat cx2, trunc_rat cy2)"
    by (simp add: crop_scaled_def a truncate_box_Fin)
  from crop_loop_head_skipped [where crop = "crop_scaled rnd scale_x scale_y margin_x_ratio margin_y_ratio orig_w orig_h"
      and b = b, OF this]
  show "(crop_loop (crop_scaled rnd scale_x scale_y margin_x_ratio margin_y_ratio orig_w orig_h) out_name img idx
           (b # boxes) =
         crop_loop (crop_scaled rnd scale_x scale_y margin_x_ratio margin_y_ratio orig_w orig_h) out_name img
           (Suc idx) boxes) =
      (trunc_rat cx2 \<le> trunc_rat cx1 \<or> trunc_rat cy2 \<le> trunc_rat cy1)"
    by (simp only: degenerate_trunc)
next
  assume a: "clamp_direct rnd margin_ratio orig_w orig_h b = (fx1, fy1, fx2, fy2)"
  show "(\<exists>x1 y1 x2 y2. (fx1, fy1, fx2, fy2) = (Fin x1, Fin y1, Fin x2, Fin y2)) \<or>
      (fx1 = PInf \<or> fy1 = PInf \<or> fx2 = NInf \<or> fy2 = NInf) \<and>
      crop_loop (crop_direct rnd margin_ratio orig_w orig_h) out_name img idx (b # boxes) =
        ([], Some OverflowError)"
  proof (cases "fx1 = PInf \<or> fy1 = PInf \<or> fx2 = NInf \<or> fy2 = NInf")
    case True
    from crop_direct_overflow [OF a True]
    have "crop_loop (crop_direct rnd margin_ratio orig_w orig_h) out_name img idx (b # boxes) =
        ([], Some OverflowError)" by simp
    then show ?thesis using True by blast
  next
    case False
    then show ?thesis using clamp_direct_cases [OF a] by blast
  qed
next
  assume a: "clamp_scaled rnd scale_x scale_y margin_x_ratio margin_y_ratio orig_w orig_h b = (fx1, fy1, fx2, fy2)"
  show "(\<exists>x1 y1 x2 y2. (fx1, fy1, fx2, fy2) = (Fin x1, Fin y1, Fin x2, Fin y2)) \<or>
      (fx1 = PInf \<or> fy1 = PInf \<or> fx2 = NInf \<or> fy2 = NInf) \<and>
      crop_loop (crop_scaled rnd scale_x scale_y margin_x_ratio margin_y_ratio orig_w orig_h) out_name img idx
          (b # boxes) = ([], Some OverflowError)"
  proof (cases "fx1 = PInf \<or> fy1 = PInf \<or> fx2 = NInf \<or> fy2 = NInf")
    case True
    from crop_scaled_overflow [OF a True]
    have "crop_loop (crop_scaled rnd scale_x scale_y margin_x_ratio margin_y_ratio orig_w orig_h) out_name img idx
          (b # boxes) = ([], Some OverflowError)" by simp
    then show ?thesis using True by blast
  next
    case False
    then show ?thesis using clamp_scaled_cases [OF a] by blast
  qed
qed

theorem skip_tests_truncated_box_witness:
  "clamp_direct Fin (Fin 0) 100 100 (Fin (41 / 4), Fin 10, Fin (43 / 4), Fin 20) =
     (Fin (41 / 4), Fin 10, Fin (43 / 4), Fin 20) \<and>
   (41 / 4 :: rat) < 43 / 4 \<and> (10 :: rat) < 20 \<and>
   trunc_rat (43 / 4) \<le> trunc_rat (41 / 4) \<and>
   crop_loop (crop_direct Fin (Fin 0) 100 100) image_out_name (100, 100) 0
       ((Fin (41 / 4), Fin 10, Fin (43 / 4), Fin 20) # [(Fin 30, Fin 30, Fin 40, Fin 40)]) =
     crop_loop (crop_direct Fin (Fin 0) 100 100) image_out_name (100, 100) (Suc 0)
       [(Fin 30, Fin 30, Fin 40, Fin 40)] \<and>
   clamp_scaled Fin (Fin 1) (Fin (1 / 2)) (Fin 0) (Fin 0) 100 100 (Fin 10, Fin (41 / 2), Fin 20, Fin (43 / 2)) =
     (Fin 10, Fin (41 / 4), Fin 20, Fin (43 / 4)) \<and>
   crop_loop (crop_scaled Fin (Fin 1) (Fin (1 / 2)) (Fin 0) (Fin 0) 100 100) (page_out_name ''doc'' 1) (100, 100) 0
       ((Fin 10, Fin (41 / 2), Fin 20, Fin (43 / 2)) # []) =
     crop_loop (crop_scaled Fin (Fin 1) (Fin (1 / 2)) (Fin 0) (Fin 0) 100 100) (page_out_name ''doc'' 1) (100, 100)
       (Suc 0) [] \<and>
   clamp_direct Fin (Fin (1 / 2)) 100 100 (PInf, Fin 10, Fin 20, Fin 20) = (PInf, Fin 5, NInf, Fin 25) \<and>
   crop_loop (crop_direct Fin (Fin (1 / 2)) 100 100) image_out_name (100, 100) 0
       ((PInf, Fin 10, Fin 20, Fin 20) # [(Fin 30, Fin 30, Fin 40, Fin 40)]) = ([], Some OverflowError) \<and>
   clamp_scaled Fin (Fin 1) (Fin 1) (Fin (1 / 2)) (Fin (1 / 2)) 100 100 (Fin 10, Fin 10, Fin 20, NInf) =
     (Fin 5, PInf, Fin 25, NInf) \<and>
   crop_loop (crop_scaled Fin (Fin 1) (Fin 1) (Fin (1 / 2)) (Fin (1 / 2)) 100 100) (page_out_name ''doc'' 1)
       (100, 100) 0 ((Fin 10, Fin 10, Fin 20, NInf) # []) = ([], Some OverflowError)"
proof -
  have a: "clamp_direct Fin (Fin 0) 100 100 (Fin (41 / 4), Fin 10, Fin (43 / 4), Fin 20) =
     (Fin (41 / 4), Fin 10, Fin (43 / 4), Fin 20)"
    by code_simp
  have b: "clamp_scaled Fin (Fin 1) (Fin (1 / 2)) (Fin 0) (Fin 0) 100 100 (Fin 10, Fin (41 / 2), Fin 20, Fin (43 / 2)) =
     (Fin 10, Fin (41 / 4), Fin 20, Fin (43 / 4))"
    by code_simp
  have p: "trunc_rat (43 / 4) \<le> trunc_rat (41 / 4)" by code_simp
  have q: "(41 / 4 :: rat) < 43 / 4 \<and> (10 :: rat) < 20" by simp
  have e: "clamp_direct Fin (Fin (1 / 2)) 100 100 (PInf, Fin 10, Fin 20, Fin 20) = (PInf, Fin 5, NInf, Fin 25)"
    by code_simp
  have f: "clamp_scaled Fin (Fin 1) (Fin 1) (Fin (1 / 2)) (Fin (1 / 2)) 100 100 (Fin 10, Fin 10, Fin 20, NInf) =
     (Fin 5, PInf, Fin 25, NInf)"
    by code_simp
  note t = skip_tests_truncated_box [where rnd = Fin and orig_w = 100 and orig_h = 100 and idx = 0]
  from a p t [where margin_ratio = "Fin 0" and b = "(Fin (41 / 4), Fin 10, Fin (43 / 4), Fin 20)"
      and ?cx1.0 = "41 / 4" and ?cy1.0 = 10
      and ?cx2.0 = "43 / 4" and ?cy2.0 = 20 and out_name = image_out_name and img = "(100, 100)"
      and boxes = "[(Fin 30, Fin 30, Fin 40, Fin 40)]"]
  have c: "crop_loop (crop_direct Fin (Fin 0) 100 100) image_out_name (100, 100) 0
       ((Fin (41 / 4), Fin 10, Fin (43 / 4), Fin 20) # [(Fin 30, Fin 30, Fin 40, Fin 40)]) =
     crop_loop (crop_direct Fin (Fin 0) 100 100) image_out_name (100, 100) (Suc 0)
       [(Fin 30, Fin 30, Fin 40, Fin 40)]"
    by blast
  from b p t [where scale_x = "Fin 1" and scale_y = "Fin (1 / 2)" and margin_x_ratio = "Fin 0"
      and margin_y_ratio = "Fin 0"
      and b = "(Fin 10, Fin (41 / 2), Fin 20, Fin (43 / 2))" and ?cx1.0 = 10 and ?cy1.0 = "41 / 4"
      and ?cx2.0 = 20 and ?cy2.0 = "43 / 4" and out_name = "page_out_name ''doc'' 1" and img = "(100, 100)"
      and boxes = "[]"]
  have d: "crop_loop (crop_scaled Fin (Fin 1) (Fin (1 / 2)) (Fin 0) (Fin 0) 100 100) (page_out_name ''doc'' 1) (100, 100) 0
       ((Fin 10, Fin (41 / 2), Fin 20, Fin (43 / 2)) # []) =
     crop_loop (crop_scaled Fin (Fin 1) (Fin (1 / 2)) (Fin 0) (Fin 0) 100 100) (page_out_name ''doc'' 1) (100, 100)
       (Suc 0) []"
    by blast
  from e t [where margin_ratio = "Fin (1 / 2)" and b = "(PInf, Fin 10, Fin 20, Fin 20)"
      and ?fx1.0 = PInf and ?fy1.0 = "Fin 5" and ?fx2.0 = NInf and ?fy2.0 = "Fin 25"
      and out_name = image_out_name and img = "(100, 100)" and boxes = "[(Fin 30, Fin 30, Fin 40, Fin 40)]"]
  have g: "crop_loop (crop_direct Fin (Fin (1 / 2)) 100 100) image_out_name (100, 100) 0
       ((PInf, Fin 10, Fin 20, Fin 20) # [(Fin 30, Fin 30, Fin 40, Fin 40)]) = ([], Some OverflowError)"
    by blast
  from f t [where scale_x = "Fin 1" and scale_y = "Fin 1" and margin_x_ratio = "Fin (1 / 2)"
      and margin_y_ratio = "Fin (1 / 2)" and b = "(Fin 10, Fin 10, Fin 20, NInf)"
      and ?fx1.0 = "Fin 5" and ?fy1.0 = PInf and ?fx2.0 = "Fin 25" and ?fy2.0 = NInf
      and out_name = "page_out_name ''doc'' 1" and img = "(100, 100)" and boxes = "[]"]
  have h: "crop_loop (crop_scaled Fin (Fin 1) (Fin 1) (Fin (1 / 2)) (Fin (1 / 2)) 100 100) (page_out_name ''doc'' 1)
       (100, 100) 0 ((Fin 10, Fin 10, Fin 20, NInf) # []) = ([], Some OverflowError)"
    by blast
  from a b c d e f g h p q show ?thesis by blast
qed

section \<open>Degenerate boxes\<close>

text \<open>
  Claim C4, as the spec states it: a box whose clamped coordinates \<open>(x1', y1', x2', y2')\<close>,
  the four values handed to \<^verbatim>\<open>int\<close>, satisfy \<open>x2' \<le> x1'\<close> or \<open>y2' \<le> y1'\<close> writes no
  file, raises no error, and the loop goes on with the next box; a box of zero width
  writes no file. The clamped values can be infinite, and then \<^verbatim>\<open>int\<close> raises before the
  test of lines 96 and 135 is reached. Under IEEE double rounding, in direct mode with a
  margin ratio of \<open>1/2\<close> on a page of \<open>100 \<times> 100\<close>, the box \<open>(2^1023, 0, -2^1023, 10)\<close> of
  finite coordinates has the clamped values \<open>(+inf, 0, -inf, 15)\<close>, so \<open>x2' \<le> x1'\<close>; the run
  over a list with this box in the second place writes the segment of the first box and
  ends with \<^verbatim>\<open>OverflowError\<close>, and the third box is never reached. And in document mode
  with a scale of two and no margin, the box \<open>(2^1023, 10, 2^1023, 20)\<close>, whose \<open>x\<close>
  coordinates are equal and scale to the same value, has a scaled width of NaN; its
  clamped values are \<open>(0, 20, 400, 40)\<close> on a page of \<open>400 \<times> 200\<close>, and a segment of the
  full page width is written.
\<close>

theorem degenerate_box_skipped_counterexample:
  "clamp_direct round_double (Fin (1 / 2)) 100 100 (Fin (2 ^ 1023), Fin 0, Fin (- (2 ^ 1023)), Fin 10) =
     (PInf, Fin 0, NInf, Fin 15) \<and>
   fle NInf PInf \<and>
   crop_direct round_double (Fin (1 / 2)) 100 100 (Fin (2 ^ 1023), Fin 0, Fin (- (2 ^ 1023)), Fin 10) =
     Inl OverflowError \<and>
   crop_segments_from_image round_double (100, 100)
     [(Fin 10, Fin 10, Fin 20, Fin 20), (Fin (2 ^ 1023), Fin 0, Fin (- (2 ^ 1023)), Fin 10),
      (Fin 30, Fin 30, Fin 40, Fin 40)] (Fin (1 / 2)) =
     ([Saved ''image_box_1.png'' (100, 100) (5, 5, 25, 25)], Some OverflowError) \<and>
   fmul round_double (Fin (2 ^ 1023)) (Fin 2) = PInf \<and>
   clamp_scaled round_double (Fin 2) (Fin 2) (Fin 0) (Fin 0) 400 200
     (Fin (2 ^ 1023), Fin 10, Fin (2 ^ 1023), Fin 20) = (Fin 0, Fin 20, Fin 400, Fin 40) \<and>
   crop_loop (crop_scaled round_double (Fin 2) (Fin 2) (Fin 0) (Fin 0) 400 200) (page_out_name ''doc'' 1)
     (400, 200) 0 [(Fin (2 ^ 1023), Fin 10, Fin (2 ^ 1023), Fin 20)] =
     ([Saved ''doc_page_1_box_1.png'' (400, 200) (0, 20, 400, 40)], None)"
proof (intro conjI)
  show "clamp_direct round_double (Fin (1 / 2)) 100 100 (Fin (2 ^ 1023), Fin 0, Fin (- (2 ^ 1023)), Fin 10) =
     (PInf, Fin 0, NInf, Fin 15)"
    by (rule clamp_direct_overflow_half)
  show "fle NInf PInf" by simp
  have t: "truncate_box (PInf, Fin 0, NInf, Fin 15) = Inl OverflowError"
    by (simp add: truncate_box_def py_int_def)
  show bad: "crop_direct round_double (Fin (1 / 2)) 100 100 (Fin (2 ^ 1023), Fin 0, Fin (- (2 ^ 1023)), Fin 10) =
     Inl OverflowError"
    unfolding crop_direct_def clamp_direct_overflow_half by (rule t)
  have t1: "truncate_box (Fin 5, Fin 5, Fin 25, Fin 25) = Inr (5, 5, 25, 25)"
    by (simp add: truncate_box_Fin trunc_rat_def)
  have c1: "crop_direct round_double (Fin (1 / 2)) 100 100 (Fin 10, Fin 10, Fin 20, Fin 20) = Inr (5, 5, 25, 25)"
    unfolding crop_direct_def clamp_direct_double_10_20 by (rule t1)
  have d1: "degenerate (5, 5, 25, 25) = False" by (simp add: degenerate_def)
  have n0: "image_out_name 0 = ''image_box_1.png''" by code_simp
  show "crop_segments_from_image round_double (100, 100)
     [(Fin 10, Fin 10, Fin 20, Fin 20), (Fin (2 ^ 1023), Fin 0, Fin (- (2 ^ 1023)), Fin 10),
      (Fin 30, Fin 30, Fin 40, Fin 40)] (Fin (1 / 2)) =
     ([Saved ''image_box_1.png'' (100, 100) (5, 5, 25, 25)], Some OverflowError)"
    by (simp only: crop_segments_from_image_def prod.case crop_loop.simps c1 bad sum.case d1 if_False
        then_run_def fst_conv snd_conv append.simps n0)
  show "fmul round_double (Fin (2 ^ 1023)) (Fin 2) = PInf"
    by (simp only: fmul.simps double_2_1023 rd_2_1024)
  show "clamp_scaled round_double (Fin 2) (Fin 2) (Fin 0) (Fin 0) 400 200
     (Fin (2 ^ 1023), Fin 10, Fin (2 ^ 1023), Fin 20) = (Fin 0, Fin 20, Fin 400, Fin 40)"
    by (rule clamp_scaled_overflow_equal)
  have t2: "truncate_box (Fin 0, Fin 20, Fin 400, Fin 40) = Inr (0, 20, 400, 40)"
    by (simp add: truncate_box_Fin trunc_rat_def)
  have c2: "crop_scaled round_double (Fin 2) (Fin 2) (Fin 0) (Fin 0) 400 200
     (Fin (2 ^ 1023), Fin 10, Fin (2 ^ 1023), Fin 20) = Inr (0, 20, 400, 40)"
    unfolding crop_scaled_def clamp_scaled_overflow_equal by (rule t2)
  have d2: "degenerate (0, 20, 400, 40) = False" by (simp add: degenerate_def)
  have n1: "page_out_name ''doc'' 1 0 = ''doc_page_1_box_1.png''" by code_simp
  show "crop_loop (crop_scaled round_double (Fin 2) (Fin 2) (Fin 0) (Fin 0) 400 200) (page_out_name ''doc'' 1)
     (400, 200) 0 [(Fin (2 ^ 1023), Fin 10, Fin (2 ^ 1023), Fin 20)] =
     ([Saved ''doc_page_1_box_1.png'' (400, 200) (0, 20, 400, 40)], None)"
    by (simp only: crop_loop.simps c2 sum.case d2 if_False then_run_def fst_conv snd_conv append.simps n1)
qed

text \<open>
  Claim C4, amended. A box whose clamped coordinates \<open>(x1', y1', x2', y2')\<close> are finite and
  satisfy \<open>x2' \<le> x1'\<close> or \<open>y2' \<le> y1'\<close> writes no file and raises nothing, and the loop goes
  on with the next box: the run over a box list with such a box at any place is the run
  over the boxes before it followed by the run over the boxes after it, which keep their
  own counter values. A box with an infinite clamped coordinate (plus infinity for \<open>x1'\<close>
  or \<open>y1'\<close>, minus infinity for \<open>x2'\<close> or \<open>y2'\<close>) ends the loop with \<^verbatim>\<open>OverflowError\<close>
  after the boxes before it. This holds in direct and in document mode. A box whose \<open>x\<close>
  coordinates are the same float (direct mode) or scale to the same float (document
  mode), such as one that scales to \<open>(100, 100, 100, 105)\<close>, writes no file and raises
  nothing when the margin ratio of the \<open>x\<close> axis is finite, the clamped \<open>y\<close> values are
  finite, and the rounding maps zero to zero.
\<close>

theorem degenerate_box_skipped:
  "(clamp_direct rnd margin_ratio orig_w orig_h b = (Fin cx1, Fin cy1, Fin cx2, Fin cy2) \<and>
    (cx2 \<le> cx1 \<or> cy2 \<le> cy1) \<longrightarrow>
      crop_loop (crop_direct rnd margin_ratio orig_w orig_h) out_name img idx [b] = ([], None) \<and>
      crop_loop (crop_direct rnd margin_ratio orig_w orig_h) out_name img idx (pre @ b # post) =
        run_seq (crop_loop (crop_direct rnd margin_ratio orig_w orig_h) out_name img idx pre)
          (crop_loop (crop_direct rnd margin_ratio orig_w orig_h) out_name img (Suc (idx + length pre)) post)) \<and>
   (clamp_scaled rnd scale_x scale_y margin_x_ratio margin_y_ratio orig_w orig_h b =
      (Fin cx1, Fin cy1, Fin cx2, Fin cy2) \<and> (cx2 \<le> cx1 \<or> cy2 \<le> cy1) \<longrightarrow>
      crop_loop (crop_scaled rnd scale_x scale_y margin_x_ratio margin_y_ratio orig_w orig_h) out_name img idx [b] =
        ([], None) \<and>
      crop_loop (crop_scaled rnd scale_x scale_y margin_x_ratio margin_y_ratio orig_w orig_h) out_name img idx
          (pre @ b # post) =
        run_seq (crop_loop (crop_scaled rnd scale_x scale_y margin_x_ratio margin_y_ratio orig_w orig_h) out_name img
                   idx pre)
          (crop_loop (crop_scaled rnd scale_x scale_y margin_x_ratio margin_y_ratio orig_w orig_h) out_name img
             (Suc (idx + length pre)) post)) \<and>
   (clamp_direct rnd margin_ratio orig_w orig_h b = (fx1, fy1, fx2, fy2) \<and>
    (fx1 = PInf \<or> fy1 = PInf \<or> fx2 = NInf \<or> fy2 = NInf) \<longrightarrow>
      crop_loop (crop_direct rnd margin_ratio orig_w orig_h) out_name img idx (pre @ b # post) =
        run_seq (crop_loop (crop_direct rnd margin_ratio orig_w orig_h) out_name img idx pre)
          ([], Some OverflowError)) \<and>
   (clamp_scaled rnd scale_x scale_y margin_x_ratio margin_y_ratio orig_w orig_h b = (fx1, fy1, fx2, fy2) \<and>
    (fx1 = PInf \<or> fy1 = PInf \<or> fx2 = NInf \<or> fy2 = NInf) \<longrightarrow>
      crop_loop (crop_scaled rnd scale_x scale_y margin_x_ratio margin_y_ratio orig_w orig_h) out_name img idx
          (pre @ b # post) =
        run_seq (crop_loop (crop_scaled rnd scale_x scale_y margin_x_ratio margin_y_ratio orig_w orig_h) out_name img
                   idx pre)
          ([], Some OverflowError)) \<and>
   (rnd 0 = Fin 0 \<and> fmul rnd x1 scale_x = Fin s \<and> fmul rnd x2 scale_x = Fin s \<and> rnd s = Fin s \<and>
    clamp_scaled rnd scale_x scale_y (Fin m) margin_y_ratio orig_w orig_h (x1, y1, x2, y2) =
      (gx1, Fin gy1, gx2, Fin gy2) \<longrightarrow>
      crop_loop (crop_scaled rnd scale_x scale_y (Fin m) margin_y_ratio orig_w orig_h) out_name img idx
          [(x1, y1, x2, y2)] = ([], None)) \<and>
   (rnd 0 = Fin 0 \<and> rnd x = Fin x \<and>
    clamp_direct rnd (Fin m) orig_w orig_h (Fin x, y1, Fin x, y2) = (gx1, Fin gy1, gx2, Fin gy2) \<longrightarrow>
      crop_loop (crop_direct rnd (Fin m) orig_w orig_h) out_name img idx [(Fin x, y1, Fin x, y2)] = ([], None))"
proof (intro conjI impI)
  assume a: "clamp_direct rnd margin_ratio orig_w orig_h b = (Fin cx1, Fin cy1, Fin cx2, Fin cy2) \<and>
    (cx2 \<le> cx1 \<or> cy2 \<le> cy1)"
  then have c: "crop_direct rnd margin_ratio orig_w orig_h b =
      Inr (trunc_rat cx1, trunc_rat cy1, trunc_rat cx2, trunc_rat cy2)"
    by (simp add: crop_direct_def truncate_box_Fin)
  have d: "degenerate (trunc_rat cx1, trunc_rat cy1, trunc_rat cx2, trunc_rat cy2)"
    using a by (simp add: degenerate_of_clamped)
  show "crop_loop (crop_direct rnd margin_ratio orig_w orig_h) out_name img idx [b] = ([], None)"
    using c d by simp
  show "crop_loop (crop_direct rnd margin_ratio orig_w orig_h) out_name img idx (pre @ b # post) =
        run_seq (crop_loop (crop_direct rnd margin_ratio orig_w orig_h) out_name img idx pre)
          (crop_loop (crop_direct rnd margin_ratio orig_w orig_h) out_name img (Suc (idx + length pre)) post)"
    using c d by (simp add: crop_loop_append)
next
  assume a: "clamp_scaled rnd scale_x scale_y margin_x_ratio margin_y_ratio orig_w orig_h b =
      (Fin cx1, Fin cy1, Fin cx2, Fin cy2) \<and> (cx2 \<le> cx1 \<or> cy2 \<le> cy1)"
  then have c: "crop_scaled rnd scale_x scale_y margin_x_ratio margin_y_ratio orig_w orig_h b =
      Inr (trunc_rat cx1, trunc_rat cy1, trunc_rat cx2, trunc_rat cy2)"
    by (simp add: crop_scaled_def truncate_box_Fin)
  have d: "degenerate (trunc_rat cx1, trunc_rat cy1, trunc_rat cx2, trunc_rat cy2)"
    using a by (simp add: degenerate_of_clamped)
  show "crop_loop (crop_scaled rnd scale_x scale_y margin_x_ratio margin_y_ratio orig_w orig_h) out_name img idx [b] =
        ([], None)"
    using c d by simp
  show "crop_loop (crop_scaled rnd scale_x scale_y margin_x_ratio margin_y_ratio orig_w orig_h) out_name img idx
          (pre @ b # post) =
        run_seq (crop_loop (crop_scaled rnd scale_x scale_y margin_x_ratio margin_y_ratio orig_w orig_h) out_name img
                   idx pre)
          (crop_loop (crop_scaled rnd scale_x scale_y margin_x_ratio margin_y_ratio orig_w orig_h) out_name img
             (Suc (idx + length pre)) post)"
    using c d by (simp add: crop_loop_append)
next
  assume a: "clamp_direct rnd margin_ratio orig_w orig_h b = (fx1, fy1, fx2, fy2) \<and>
    (fx1 = PInf \<or> fy1 = PInf \<or> fx2 = NInf \<or> fy2 = NInf)"
  then have "crop_direct rnd margin_ratio orig_w orig_h b = Inl OverflowError"
    using crop_direct_overflow by blast
  then show "crop_loop (crop_direct rnd margin_ratio orig_w orig_h) out_name img idx (pre @ b # post) =
        run_seq (crop_loop (crop_direct rnd margin_ratio orig_w orig_h) out_name img idx pre)
          ([], Some OverflowError)"
    by (simp add: crop_loop_append)
next
  assume a: "clamp_scaled rnd scale_x scale_y margin_x_ratio margin_y_ratio orig_w orig_h b = (fx1, fy1, fx2, fy2) \<and>
    (fx1 = PInf \<or> fy1 = PInf \<or> fx2 = NInf \<or> fy2 = NInf)"
  then have "crop_scaled rnd scale_x scale_y margin_x_ratio margin_y_ratio orig_w orig_h b = Inl OverflowError"
    using crop_scaled_overflow by blast
  then show "crop_loop (crop_scaled rnd scale_x scale_y margin_x_ratio margin_y_ratio orig_w orig_h) out_name img idx
          (pre @ b # post) =
        run_seq (crop_loop (crop_scaled rnd scale_x scale_y margin_x_ratio margin_y_ratio orig_w orig_h) out_name img
                   idx pre)
          ([], Some OverflowError)"
    by (simp add: crop_loop_append)
next
  assume a: "rnd 0 = Fin 0 \<and> fmul rnd x1 scale_x = Fin s \<and> fmul rnd x2 scale_x = Fin s \<and> rnd s = Fin s \<and>
    clamp_scaled rnd scale_x scale_y (Fin m) margin_y_ratio orig_w orig_h (x1, y1, x2, y2) =
      (gx1, Fin gy1, gx2, Fin gy2)"
  then obtain c where "crop_scaled rnd scale_x scale_y (Fin m) margin_y_ratio orig_w orig_h (x1, y1, x2, y2) = Inr c"
    "degenerate c"
    using zero_width_scaled [of rnd x1 scale_x s x2 scale_y m margin_y_ratio orig_w orig_h y1 y2 gx1 gy1 gx2 gy2]
    by blast
  then show "crop_loop (crop_scaled rnd scale_x scale_y (Fin m) margin_y_ratio orig_w orig_h) out_name img idx
          [(x1, y1, x2, y2)] = ([], None)"
    by simp
next
  assume a: "rnd 0 = Fin 0 \<and> rnd x = Fin x \<and>
    clamp_direct rnd (Fin m) orig_w orig_h (Fin x, y1, Fin x, y2) = (gx1, Fin gy1, gx2, Fin gy2)"
  then obtain c where "crop_direct rnd (Fin m) orig_w orig_h (Fin x, y1, Fin x, y2) = Inr c" "degenerate c"
    using zero_width_direct [of rnd x m orig_w orig_h y1 y2 gx1 gy1 gx2 gy2] by blast
  then show "crop_loop (crop_direct rnd (Fin m) orig_w orig_h) out_name img idx [(Fin x, y1, Fin x, y2)] = ([], None)"
    by simp
qed

theorem degenerate_box_skipped_witness:
  "clamp_direct Fin (Fin (1 / 20)) 400 200 (Fin 100, Fin 100, Fin 100, Fin 105) =
     (Fin 100, Fin (399 / 4), Fin 100, Fin (421 / 4)) \<and>
   crop_loop (crop_direct Fin (Fin (1 / 20)) 400 200) image_out_name (400, 200) 0
       [(Fin 100, Fin 100, Fin 100, Fin 105)] = ([], None) \<and>
   crop_loop (crop_direct Fin (Fin (1 / 20)) 400 200) image_out_name (400, 200) 0
       ([(Fin 10, Fin 10, Fin 20, Fin 20)] @ (Fin 100, Fin 100, Fin 100, Fin 105) # [(Fin 30, Fin 30, Fin 40, Fin 40)]) =
     run_seq (crop_loop (crop_direct Fin (Fin (1 / 20)) 400 200) image_out_name (400, 200) 0
                [(Fin 10, Fin 10, Fin 20, Fin 20)])
       (crop_loop (crop_direct Fin (Fin (1 / 20)) 400 200) image_out_name (400, 200)
          (Suc (0 + length [(Fin 10, Fin 10, Fin 20, Fin 20)])) [(Fin 30, Fin 30, Fin 40, Fin 40)]) \<and>
   crop_segments_from_image Fin (400, 200)
     [(Fin 10, Fin 10, Fin 20, Fin 20), (Fin 100, Fin 100, Fin 100, Fin 105), (Fin 30, Fin 30, Fin 40, Fin 40)]
     (Fin (1 / 20)) =
     ([Saved ''image_box_1.png'' (400, 200) (9, 9, 20, 20), Saved ''image_box_3.png'' (400, 200) (29, 29, 40, 40)],
      None) \<and>
   clamp_scaled Fin (Fin 2) (Fin 2) (Fin (1 / 20)) (Fin (1 / 20)) 400 200 (Fin 50, Fin 50, Fin 50, Fin (105 / 2)) =
     (Fin 100, Fin (399 / 4), Fin 100, Fin (421 / 4)) \<and>
   crop_loop (crop_scaled Fin (Fin 2) (Fin 2) (Fin (1 / 20)) (Fin (1 / 20)) 400 200) (page_out_name ''doc'' 1)
       (400, 200) 0 ([] @ (Fin 50, Fin 50, Fin 50, Fin (105 / 2)) # [(Fin 15, Fin 15, Fin 20, Fin 20)]) =
     run_seq (crop_loop (crop_scaled Fin (Fin 2) (Fin 2) (Fin (1 / 20)) (Fin (1 / 20)) 400 200)
                (page_out_name ''doc'' 1) (400, 200) 0 [])
       (crop_loop (crop_scaled Fin (Fin 2) (Fin 2) (Fin (1 / 20)) (Fin (1 / 20)) 400 200) (page_out_name ''doc'' 1)
          (400, 200) (Suc (0 + length ([] :: box list))) [(Fin 15, Fin 15, Fin 20, Fin 20)]) \<and>
   clamp_direct Fin (Fin (1 / 2)) 100 100 (PInf, Fin 10, Fin 20, Fin 20) = (PInf, Fin 5, NInf, Fin 25) \<and>
   crop_loop (crop_direct Fin (Fin (1 / 2)) 100 100) image_out_name (100, 100) 0
       ([(Fin 10, Fin 10, Fin 20, Fin 20)] @ (PInf, Fin 10, Fin 20, Fin 20) # [(Fin 30, Fin 30, Fin 40, Fin 40)]) =
     run_seq (crop_loop (crop_direct Fin (Fin (1 / 2)) 100 100) image_out_name (100, 100) 0
                [(Fin 10, Fin 10, Fin 20, Fin 20)])
       ([], Some OverflowError) \<and>
   clamp_scaled Fin (Fin 1) (Fin 1) (Fin (1 / 2)) (Fin (1 / 2)) 100 100 (Fin 10, Fin 10, Fin 20, NInf) =
     (Fin 5, PInf, Fin 25, NInf) \<and>
   crop_loop (crop_scaled Fin (Fin 1) (Fin 1) (Fin (1 / 2)) (Fin (1 / 2)) 100 100) (page_out_name ''doc'' 1)
       (100, 100) 0 ([] @ (Fin 10, Fin 10, Fin 20, NInf) # [(Fin 30, Fin 30, Fin 40, Fin 40)]) =
     run_seq (crop_loop (crop_scaled Fin (Fin 1) (Fin 1) (Fin (1 / 2)) (Fin (1 / 2)) 100 100)
                (page_out_name ''doc'' 1) (100, 100) 0 [])
       ([], Some OverflowError) \<and>
   fmul Fin (Fin 50) (Fin 2) = Fin 100 \<and>
   crop_loop (crop_scaled Fin (Fin 2) (Fin 2) (Fin (1 / 20)) (Fin (1 / 20)) 400 200) (page_out_name ''doc'' 1)
       (400, 200) 0 [(Fin 50, Fin 50, Fin 50, Fin (105 / 2))] = ([], None) \<and>
   crop_loop (crop_direct Fin (Fin (1 / 20)) 400 200) image_out_name (400, 200) 7
       [(Fin 100, Fin 100, Fin 100, Fin 105)] = ([], None)"
proof -
  have a: "clamp_direct Fin (Fin (1 / 20)) 400 200 (Fin 100, Fin 100, Fin 100, Fin 105) =
     (Fin 100, Fin (399 / 4), Fin 100, Fin (421 / 4))"
    by code_simp
  have b: "clamp_scaled Fin (Fin 2) (Fin 2) (Fin (1 / 20)) (Fin (1 / 20)) 400 200 (Fin 50, Fin 50, Fin 50, Fin (105 / 2)) =
     (Fin 100, Fin (399 / 4), Fin 100, Fin (421 / 4))"
    by code_simp
  have c: "crop_segments_from_image Fin (400, 200)
     [(Fin 10, Fin 10, Fin 20, Fin 20), (Fin 100, Fin 100, Fin 100, Fin 105), (Fin 30, Fin 30, Fin 40, Fin 40)]
     (Fin (1 / 20)) =
     ([Saved ''image_box_1.png'' (400, 200) (9, 9, 20, 20), Saved ''image_box_3.png'' (400, 200) (29, 29, 40, 40)],
      None)"
    by code_simp
  have o1: "clamp_direct Fin (Fin (1 / 2)) 100 100 (PInf, Fin 10, Fin 20, Fin 20) = (PInf, Fin 5, NInf, Fin 25)"
    by code_simp
  have o2: "clamp_scaled Fin (Fin 1) (Fin 1) (Fin (1 / 2)) (Fin (1 / 2)) 100 100 (Fin 10, Fin 10, Fin 20, NInf) =
     (Fin 5, PInf, Fin 25, NInf)"
    by code_simp
  have le: "(100 :: rat) \<le> 100 \<or> (421 / 4 :: rat) \<le> 399 / 4" by simp
  have inf1: "(PInf = PInf \<or> Fin 5 = PInf \<or> NInf = NInf \<or> Fin 25 = NInf)" by simp
  have inf2: "(Fin 5 = PInf \<or> PInf = PInf \<or> Fin 25 = NInf \<or> NInf = NInf)" by simp
  have z: "Fin 0 = Fin 0 \<and> fmul Fin (Fin 50) (Fin 2) = Fin 100 \<and> fmul Fin (Fin 50) (Fin 2) = Fin 100 \<and>
      Fin 100 = Fin 100"
    by simp
  have zd: "Fin 0 = Fin 0 \<and> Fin 100 = Fin 100" by simp
  note t = degenerate_box_skipped [where rnd = Fin]
  from a le t [where margin_ratio = "Fin (1 / 20)" and orig_w = 400 and orig_h = 200
      and ?cx1.0 = 100 and ?cy1.0 = "399 / 4" and ?cx2.0 = 100 and ?cy2.0 = "421 / 4" and idx = 0
      and b = "(Fin 100, Fin 100, Fin 100, Fin 105)" and pre = "[(Fin 10, Fin 10, Fin 20, Fin 20)]"
      and post = "[(Fin 30, Fin 30, Fin 40, Fin 40)]" and out_name = image_out_name and img = "(400, 200)"]
  have d: "crop_loop (crop_direct Fin (Fin (1 / 20)) 400 200) image_out_name (400, 200) 0
       [(Fin 100, Fin 100, Fin 100, Fin 105)] = ([], None) \<and>
   crop_loop (crop_direct Fin (Fin (1 / 20)) 400 200) image_out_name (400, 200) 0
       ([(Fin 10, Fin 10, Fin 20, Fin 20)] @ (Fin 100, Fin 100, Fin 100, Fin 105) # [(Fin 30, Fin 30, Fin 40, Fin 40)]) =
     run_seq (crop_loop (crop_direct Fin (Fin (1 / 20)) 400 200) image_out_name (400, 200) 0
                [(Fin 10, Fin 10, Fin 20, Fin 20)])
       (crop_loop (crop_direct Fin (Fin (1 / 20)) 400 200) image_out_name (400, 200)
          (Suc (0 + length [(Fin 10, Fin 10, Fin 20, Fin 20)])) [(Fin 30, Fin 30, Fin 40, Fin 40)])"
    by blast
  from b le t [where scale_x = "Fin 2" and scale_y = "Fin 2" and margin_x_ratio = "Fin (1 / 20)"
      and margin_y_ratio = "Fin (1 / 20)" and orig_w = 400 and orig_h = 200
      and ?cx1.0 = 100 and ?cy1.0 = "399 / 4" and ?cx2.0 = 100 and ?cy2.0 = "421 / 4" and idx = 0
      and b = "(Fin 50, Fin 50, Fin 50, Fin (105 / 2))" and pre = "[]" and post = "[(Fin 15, Fin 15, Fin 20, Fin 20)]"
      and out_name = "page_out_name ''doc'' 1" and img = "(400, 200)"]
  have e: "crop_loop (crop_scaled Fin (Fin 2) (Fin 2) (Fin (1 / 20)) (Fin (1 / 20)) 400 200) (page_out_name ''doc'' 1)
       (400, 200) 0 ([] @ (Fin 50, Fin 50, Fin 50, Fin (105 / 2)) # [(Fin 15, Fin 15, Fin 20, Fin 20)]) =
     run_seq (crop_loop (crop_scaled Fin (Fin 2) (Fin 2) (Fin (1 / 20)) (Fin (1 / 20)) 400 200)
                (page_out_name ''doc'' 1) (400, 200) 0 [])
       (crop_loop (crop_scaled Fin (Fin 2) (Fin 2) (Fin (1 / 20)) (Fin (1 / 20)) 400 200) (page_out_name ''doc'' 1)
          (400, 200) (Suc (0 + length ([] :: box list))) [(Fin 15, Fin 15, Fin 20, Fin 20)])"
    by blast
  from o1 inf1 t [where margin_ratio = "Fin (1 / 2)" and orig_w = 100 and orig_h = 100
      and ?fx1.0 = PInf and ?fy1.0 = "Fin 5" and ?fx2.0 = NInf and ?fy2.0 = "Fin 25" and idx = 0
      and b = "(PInf, Fin 10, Fin 20, Fin 20)" and pre = "[(Fin 10, Fin 10, Fin 20, Fin 20)]"
      and post = "[(Fin 30, Fin 30, Fin 40, Fin 40)]" and out_name = image_out_name and img = "(100, 100)"]
  have f: "crop_loop (crop_direct Fin (Fin (1 / 2)) 100 100) image_out_name (100, 100) 0
       ([(Fin 10, Fin 10, Fin 20, Fin 20)] @ (PInf, Fin 10, Fin 20, Fin 20) # [(Fin 30, Fin 30, Fin 40, Fin 40)]) =
     run_seq (crop_loop (crop_direct Fin (Fin (1 / 2)) 100 100) image_out_name (100, 100) 0
                [(Fin 10, Fin 10, Fin 20, Fin 20)])
       ([], Some OverflowError)"
    by blast
  from o2 inf2 t [where scale_x = "Fin 1" and scale_y = "Fin 1" and margin_x_ratio = "Fin (1 / 2)"
      and margin_y_ratio = "Fin (1 / 2)" and orig_w = 100 and orig_h = 100
      and ?fx1.0 = "Fin 5" and ?fy1.0 = PInf and ?fx2.0 = "Fin 25" and ?fy2.0 = NInf and idx = 0
      and b = "(Fin 10, Fin 10, Fin 20, NInf)" and pre = "[]"
      and post = "[(Fin 30, Fin 30, Fin 40, Fin 40)]" and out_name = "page_out_name ''doc'' 1" and img = "(100, 100)"]
  have g: "crop_loop (crop_scaled Fin (Fin 1) (Fin 1) (Fin (1 / 2)) (Fin (1 / 2)) 100 100) (page_out_name ''doc'' 1)
       (100, 100) 0 ([] @ (Fin 10, Fin 10, Fin 20, NInf) # [(Fin 30, Fin 30, Fin 40, Fin 40)]) =
     run_seq (crop_loop (crop_scaled Fin (Fin 1) (Fin 1) (Fin (1 / 2)) (Fin (1 / 2)) 100 100)
                (page_out_name ''doc'' 1) (100, 100) 0 [])
       ([], Some OverflowError)"
    by blast
  from z b t [where scale_x = "Fin 2" and scale_y = "Fin 2" and m = "1 / 20"
      and margin_y_ratio = "Fin (1 / 20)" and orig_w = 400 and orig_h = 200 and s = 100
      and ?x1.0 = "Fin 50" and ?y1.0 = "Fin 50" and ?x2.0 = "Fin 50" and ?y2.0 = "Fin (105 / 2)"
      and ?gx1.0 = "Fin 100" and ?gy1.0 = "399 / 4" and ?gx2.0 = "Fin 100" and ?gy2.0 = "421 / 4"
      and idx = 0 and out_name = "page_out_name ''doc'' 1" and img = "(400, 200)"]
  have h: "crop_loop (crop_scaled Fin (Fin 2) (Fin 2) (Fin (1 / 20)) (Fin (1 / 20)) 400 200) (page_out_name ''doc'' 1)
       (400, 200) 0 [(Fin 50, Fin 50, Fin 50, Fin (105 / 2))] = ([], None)"
    by blast
  from zd a t [where m = "1 / 20" and orig_w = 400 and orig_h = 200 and x = 100
      and ?y1.0 = "Fin 100" and ?y2.0 = "Fin 105"
      and ?gx1.0 = "Fin 100" and ?gy1.0 = "399 / 4" and ?gx2.0 = "Fin 100" and ?gy2.0 = "421 / 4"
      and idx = 7 and out_name = image_out_name and img = "(400, 200)"]
  have i: "crop_loop (crop_direct Fin (Fin (1 / 20)) 400 200) image_out_name (400, 200) 7
       [(Fin 100, Fin 100, Fin 100, Fin 105)] = ([], None)"
    by blast
  from a b c d e f g h i o1 o2 z show ?thesis by blast
qed

section \<open>Unit scale and no margin\<close>

text \<open>
  Claim C5, as the spec states it: with \<open>scale_x = scale_y = 1\<close> and margin ratios \<open>0\<close> the
  crop box of every input box is the input box truncated to integers. The clamp of lines
  91 to 94 and 130 to 133 refutes it for a box that leaves the page: the box
  \<open>(-5, 0, 10, 10)\<close> on a page of \<open>100 \<times> 100\<close> gives \<open>(0, 0, 10, 10)\<close> in both modes, under
  IEEE double rounding, and its truncation is \<open>(-5, 0, 10, 10)\<close>. An overflow refutes it
  too: the box \<open>(2^1023, 0, -2^1023, 10)\<close> has a width of minus infinity, so the margin
  \<open>0 * width\<close> is NaN, \<^verbatim>\<open>max(0, nan)\<close> is \<open>0\<close> and \<^verbatim>\<open>min(100, nan)\<close> is \<open>100\<close>: the crop box
  is \<open>(0, 0, 100, 10)\<close>.
\<close>

theorem unit_scale_no_margin_counterexample:
  "crop_direct round_double (Fin 0) 100 100 (Fin (- 5), Fin 0, Fin 10, Fin 10) = Inr (0, 0, 10, 10) \<and>
   crop_scaled round_double (Fin 1) (Fin 1) (Fin 0) (Fin 0) 100 100 (Fin (- 5), Fin 0, Fin 10, Fin 10) =
     Inr (0, 0, 10, 10) \<and>
   truncate_box (Fin (- 5), Fin 0, Fin 10, Fin 10) = Inr (- 5, 0, 10, 10) \<and>
   crop_direct round_double (Fin 0) 100 100 (Fin (- 5), Fin 0, Fin 10, Fin 10) \<noteq>
     truncate_box (Fin (- 5), Fin 0, Fin 10, Fin 10) \<and>
   crop_scaled round_double (Fin 1) (Fin 1) (Fin 0) (Fin 0) 100 100 (Fin (- 5), Fin 0, Fin 10, Fin 10) \<noteq>
     truncate_box (Fin (- 5), Fin 0, Fin 10, Fin 10) \<and>
   crop_direct round_double (Fin 0) 100 100 (Fin (2 ^ 1023), Fin 0, Fin (- (2 ^ 1023)), Fin 10) =
     Inr (0, 0, 100, 10) \<and>
   truncate_box (Fin (2 ^ 1023), Fin 0, Fin (- (2 ^ 1023)), Fin 10) = Inr (2 ^ 1023, 0, - (2 ^ 1023), 10)"
proof -
  have r: "round_double (- 5) = Fin (- 5)" "round_double 0 = Fin 0" "round_double 10 = Fin 10"
    "round_double 10 = Fin 10" by (simp_all only: rd_small rd0)
  have w: "round_double (10 - (- 5)) = Fin 15" "round_double (10 - 0) = Fin 10" by code_simp+
  have a: "clamp_direct round_double (Fin 0) 100 100 (Fin (- 5), Fin 0, Fin 10, Fin 10) =
      (Fin 0, Fin 0, Fin 10, Fin 10)"
    using clamp_direct_no_margin [OF rd0 r w, of 100 100]
    by (simp add: py_max_def py_min_def)
  have b: "clamp_scaled round_double (Fin 1) (Fin 1) (Fin 0) (Fin 0) 100 100 (Fin (- 5), Fin 0, Fin 10, Fin 10) =
      (Fin 0, Fin 0, Fin 10, Fin 10)"
    using clamp_scaled_unit [OF rd0 r w, of 100 100]
    by (simp add: py_max_def py_min_def)
  have t: "truncate_box (Fin 0, Fin 0, Fin 10, Fin 10) = Inr (0, 0, 10, 10)"
    "truncate_box (Fin (- 5), Fin 0, Fin 10, Fin 10) = Inr (- 5, 0, 10, 10)"
    "truncate_box (Fin 0, Fin 0, Fin 100, Fin 10) = Inr (0, 0, 100, 10)"
    by (simp_all add: truncate_box_Fin trunc_rat_def)
  have c: "crop_direct round_double (Fin 0) 100 100 (Fin (- 5), Fin 0, Fin 10, Fin 10) = Inr (0, 0, 10, 10)"
    "crop_scaled round_double (Fin 1) (Fin 1) (Fin 0) (Fin 0) 100 100 (Fin (- 5), Fin 0, Fin 10, Fin 10) =
      Inr (0, 0, 10, 10)"
    by (simp_all add: crop_direct_def crop_scaled_def a b t)
  have o: "crop_direct round_double (Fin 0) 100 100 (Fin (2 ^ 1023), Fin 0, Fin (- (2 ^ 1023)), Fin 10) =
     Inr (0, 0, 100, 10)"
    unfolding crop_direct_def clamp_direct_overflow_zero by (rule t(3))
  have u: "truncate_box (Fin (2 ^ 1023), Fin 0, Fin (- (2 ^ 1023)), Fin 10) = Inr (2 ^ 1023, 0, - (2 ^ 1023), 10)"
    by (simp add: truncate_box_Fin trunc_rat_def)
  have ne: "Inr (0, 0, 10, 10) \<noteq> (Inr (- 5, 0, 10, 10) :: error + crop_box)" by simp
  show ?thesis
    unfolding c t(2) using o u ne by (intro conjI) (rule refl | assumption)+
qed

text \<open>
  Claim C5, amended. For a box of finite floats whose width and height do not overflow,
  with \<open>scale_x = scale_y = 1\<close> and margin ratios \<open>0\<close>, the crop box is the box clamped to
  the page, \<open>(max(0, x1), max(0, y1), min(page_width, x2), min(page_height, y2))\<close>,
  truncated to integers; if the box lies inside the page (\<open>0 \<le> x1\<close>, \<open>0 \<le> y1\<close>,
  \<open>x2 \<le> page_width\<close>, \<open>y2 \<le> page_height\<close>) it is the input box truncated to integers. The
  hypotheses on \<open>rnd\<close> say that the coordinates and zero are floats, which rounding leaves
  as they are, and that \<open>x2 - x1\<close> and \<open>y2 - y1\<close> round to finite floats.
\<close>

theorem unit_scale_no_margin:
  assumes "rnd 0 = Fin 0" and "rnd x1 = Fin x1" and "rnd y1 = Fin y1" and "rnd x2 = Fin x2" and "rnd y2 = Fin y2"
    and "rnd (x2 - x1) = Fin width" and "rnd (y2 - y1) = Fin height"
  shows "crop_direct rnd (Fin 0) orig_w orig_h (Fin x1, Fin y1, Fin x2, Fin y2) =
           truncate_box (py_max (Fin 0) (Fin x1), py_max (Fin 0) (Fin y1),
                         py_min (Fin (of_int orig_w)) (Fin x2), py_min (Fin (of_int orig_h)) (Fin y2)) \<and>
         crop_scaled rnd (Fin 1) (Fin 1) (Fin 0) (Fin 0) orig_w orig_h (Fin x1, Fin y1, Fin x2, Fin y2) =
           truncate_box (py_max (Fin 0) (Fin x1), py_max (Fin 0) (Fin y1),
                         py_min (Fin (of_int orig_w)) (Fin x2), py_min (Fin (of_int orig_h)) (Fin y2)) \<and>
         truncate_box (py_max (Fin 0) (Fin x1), py_max (Fin 0) (Fin y1),
                       py_min (Fin (of_int orig_w)) (Fin x2), py_min (Fin (of_int orig_h)) (Fin y2)) =
           Inr (trunc_rat (max 0 x1), trunc_rat (max 0 y1),
                trunc_rat (min (of_int orig_w) x2), trunc_rat (min (of_int orig_h) y2)) \<and>
         (0 \<le> x1 \<and> 0 \<le> y1 \<and> x2 \<le> of_int orig_w \<and> y2 \<le> of_int orig_h \<longrightarrow>
            crop_direct rnd (Fin 0) orig_w orig_h (Fin x1, Fin y1, Fin x2, Fin y2) =
              truncate_box (Fin x1, Fin y1, Fin x2, Fin y2) \<and>
            crop_scaled rnd (Fin 1) (Fin 1) (Fin 0) (Fin 0) orig_w orig_h (Fin x1, Fin y1, Fin x2, Fin y2) =
              truncate_box (Fin x1, Fin y1, Fin x2, Fin y2) \<and>
            truncate_box (Fin x1, Fin y1, Fin x2, Fin y2) =
              Inr (trunc_rat x1, trunc_rat y1, trunc_rat x2, trunc_rat y2))"
  using assms
  by (simp add: crop_direct_def crop_scaled_def clamp_direct_no_margin [where w = width and h = height]
      clamp_scaled_unit [where w = width and h = height]
      py_max_inside py_min_inside py_max_Fin py_min_Fin truncate_box_Fin)

theorem unit_scale_no_margin_witness:
  "round_double 0 = Fin 0 \<and> round_double (21 / 2) = Fin (21 / 2) \<and> round_double (81 / 4) = Fin (81 / 4) \<and>
   round_double (123 / 4) = Fin (123 / 4) \<and> round_double 40 = Fin 40 \<and>
   round_double (123 / 4 - 21 / 2) = Fin (81 / 4) \<and> round_double (40 - 81 / 4) = Fin (79 / 4) \<and>
   crop_direct round_double (Fin 0) 100 100 (Fin (21 / 2), Fin (81 / 4), Fin (123 / 4), Fin 40) =
     Inr (10, 20, 30, 40) \<and>
   crop_scaled round_double (Fin 1) (Fin 1) (Fin 0) (Fin 0) 100 100
     (Fin (21 / 2), Fin (81 / 4), Fin (123 / 4), Fin 40) = Inr (10, 20, 30, 40) \<and>
   truncate_box (Fin (21 / 2), Fin (81 / 4), Fin (123 / 4), Fin 40) = Inr (10, 20, 30, 40)"
proof -
  have r: "round_double (21 / 2) = Fin (21 / 2)" "round_double (81 / 4) = Fin (81 / 4)"
    "round_double (123 / 4) = Fin (123 / 4)" "round_double 40 = Fin 40"
    "round_double (123 / 4 - 21 / 2) = Fin (81 / 4)" "round_double (40 - 81 / 4) = Fin (79 / 4)"
    by code_simp+
  have i: "(0 :: rat) \<le> 21 / 2 \<and> (0 :: rat) \<le> 81 / 4 \<and> (123 / 4 :: rat) \<le> of_int 100 \<and> (40 :: rat) \<le> of_int 100"
    by simp
  have t: "truncate_box (Fin (21 / 2), Fin (81 / 4), Fin (123 / 4), Fin 40) = Inr (10, 20, 30, 40)"
    by code_simp
  from unit_scale_no_margin [OF rd0 r, of 100 100] i
  have "crop_direct round_double (Fin 0) 100 100 (Fin (21 / 2), Fin (81 / 4), Fin (123 / 4), Fin 40) =
          truncate_box (Fin (21 / 2), Fin (81 / 4), Fin (123 / 4), Fin 40) \<and>
        crop_scaled round_double (Fin 1) (Fin 1) (Fin 0) (Fin 0) 100 100
          (Fin (21 / 2), Fin (81 / 4), Fin (123 / 4), Fin 40) =
          truncate_box (Fin (21 / 2), Fin (81 / 4), Fin (123 / 4), Fin 40)"
    by blast
  then have "crop_direct round_double (Fin 0) 100 100 (Fin (21 / 2), Fin (81 / 4), Fin (123 / 4), Fin 40) =
          Inr (10, 20, 30, 40) \<and>
        crop_scaled round_double (Fin 1) (Fin 1) (Fin 0) (Fin 0) 100 100
          (Fin (21 / 2), Fin (81 / 4), Fin (123 / 4), Fin 40) = Inr (10, 20, 30, 40)"
    by (simp only: t)
  then show ?thesis using r rd0 t by blast
qed

section \<open>The rescaling scenario\<close>

text \<open>
  Claim C2. In document mode the box \<open>(10, 10, 110, 60)\<close>, with a layout image of
  \<open>200 \<times> 100\<close>, a page render of \<open>400 \<times> 200\<close> and margin ratios \<open>0.05\<close>, gives the integer
  crop box \<open>(10, 15, 230, 125)\<close>: the scale factors \<^verbatim>\<open>400 / 200\<close> and \<^verbatim>\<open>200 / 100\<close> are both
  \<open>2\<close>, and the crop box is \<open>(10, 15, 230, 125)\<close> under IEEE double arithmetic, where the
  ratio is the double nearest to \<open>1/20\<close>, under exact arithmetic, and as the one segment a
  run on a one-page document writes.
\<close>

theorem scenario_crop_box:
  "truediv round_double 400 200 = Inr (Fin 2) \<and> truediv round_double 200 100 = Inr (Fin 2) \<and>
   crop_scaled round_double (Fin 2) (Fin 2) (round_double (1 / 20)) (round_double (1 / 20)) 400 200
     (Fin 10, Fin 10, Fin 110, Fin 60) = Inr (10, 15, 230, 125) \<and>
   truediv Fin 400 200 = Inr (Fin 2) \<and> truediv Fin 200 100 = Inr (Fin 2) \<and>
   crop_scaled Fin (Fin 2) (Fin 2) (Fin (1 / 20)) (Fin (1 / 20)) 400 200
     (Fin 10, Fin 10, Fin 110, Fin 60) = Inr (10, 15, 230, 125) \<and>
   crop_clean_segments_with_margin round_double
     \<lparr>pdf_pages = [(400, 200)], listdir = [''doc_0_layout.png''], image_size = (\<lambda>f. (200, 100))\<rparr>
     [(''doc'', [\<lparr>page = 1, bboxes = [(Fin 10, Fin 10, Fin 110, Fin 60)]\<rparr>])]
     (round_double (1 / 20)) (round_double (1 / 20)) =
     ([Saved ''doc_page_1_box_1.png'' (400, 200) (10, 15, 230, 125)], None)"
proof (intro conjI)
  show sx: "truediv round_double 400 200 = Inr (Fin 2)" by code_simp
  show sy: "truediv round_double 200 100 = Inr (Fin 2)" by code_simp
  show "truediv Fin 400 200 = Inr (Fin 2)" by code_simp
  show "truediv Fin 200 100 = Inr (Fin 2)" by code_simp
  show d: "crop_scaled round_double (Fin 2) (Fin 2) (round_double (1 / 20)) (round_double (1 / 20)) 400 200
     (Fin 10, Fin 10, Fin 110, Fin 60) = Inr (10, 15, 230, 125)"
    by (simp only: crop_scaled_def scenario_clamp_double truncate_scenario)
  show "crop_scaled Fin (Fin 2) (Fin 2) (Fin (1 / 20)) (Fin (1 / 20)) 400 200
     (Fin 10, Fin 10, Fin 110, Fin 60) = Inr (10, 15, 230, 125)"
    by code_simp
  let ?w = "\<lparr>pdf_pages = [(400, 200)], listdir = [''doc_0_layout.png''], image_size = (\<lambda>f. (200 :: int, 100 :: int))\<rparr>"
  let ?pd = "\<lparr>page = 1, bboxes = [(Fin 10, Fin 10, Fin 110, Fin 60)]\<rparr>"
  have l: "filter (\<lambda>f. endswith f ''_layout.png'') (listdir ?w) = [''doc_0_layout.png'']"
    by code_simp
  have f: "find_layout_file (page ?pd - 1) [''doc_0_layout.png''] = Some ''doc_0_layout.png''"
    by code_simp
  have i: "py_index (pdf_pages ?w) (page ?pd - 1) = Inr (400, 200)"
    by code_simp
  have n: "page_out_name ''doc'' 1 0 = ''doc_page_1_box_1.png''"
    by code_simp
  have g: "\<not> degenerate (10, 15, 230, 125)"
    by (simp add: degenerate_def)
  have "crop_page round_double ?w [''doc_0_layout.png''] ''doc'' (round_double (1 / 20)) (round_double (1 / 20)) ?pd =
     crop_loop
       (crop_scaled round_double (Fin 2) (Fin 2) (round_double (1 / 20)) (round_double (1 / 20)) 400 200)
       (page_out_name ''doc'' (page ?pd)) (400, 200) 0 (bboxes ?pd)"
  proof (rule crop_page_found [OF i f _ _ sx sy])
    show "''doc_0_layout.png'' \<noteq> []" by simp
    show "image_size ?w ''doc_0_layout.png'' = (200, 100)" by simp
  qed
  then have p: "crop_page round_double ?w [''doc_0_layout.png''] ''doc'' (round_double (1 / 20))
      (round_double (1 / 20)) ?pd = ([Saved ''doc_page_1_box_1.png'' (400, 200) (10, 15, 230, 125)], None)"
    using d g n by (simp add: then_run_def)
  show "crop_clean_segments_with_margin round_double ?w [(''doc'', [?pd])]
     (round_double (1 / 20)) (round_double (1 / 20)) =
     ([Saved ''doc_page_1_box_1.png'' (400, 200) (10, 15, 230, 125)], None)"
    unfolding crop_clean_segments_with_margin_def Let_def l
    using p by (simp add: run_seq_None then_run_def)
qed

section \<open>Box numbers in file names\<close>

text \<open>
  Claim C10. The number in a segment's file name is the box's position in the page's box
  list, counted from one (the \<^verbatim>\<open>enumerate\<close> index plus one), whatever was skipped before
  it: the events of a cropper are the boxes paired with their indices, up to the first
  box whose computation raises, the degenerate ones filtered out, each saved under the
  name built from its own index. So skipped boxes leave gaps in the numbering. The run
  ends with \<^verbatim>\<open>OverflowError\<close> when there is a box that raises, and with no exception
  otherwise. In direct mode the name is \<^verbatim>\<open>image_box_<idx+1>.png\<close>, and
  \<^verbatim>\<open>extract_box_number\<close> reads \<open>idx + 1\<close> back from it; in document mode, for a page whose
  layout image is found and whose scale factors are computed, it is
  \<^verbatim>\<open><doc_key>_page_<page>_box_<idx+1>.png\<close>.
\<close>

theorem box_number_is_position:
  "crop_segments_from_image rnd (orig_w, orig_h) layout_result margin_ratio =
     (map (\<lambda>(idx, b). Saved (''image_box_'' @ str_nat (idx + 1) @ ''.png'') (orig_w, orig_h)
                        (projr (crop_direct rnd margin_ratio orig_w orig_h b)))
        (filter (\<lambda>(idx, b). \<not> degenerate (projr (crop_direct rnd margin_ratio orig_w orig_h b)))
           (takeWhile (\<lambda>(idx, b). \<not> isl (crop_direct rnd margin_ratio orig_w orig_h b))
              (List.enumerate 0 layout_result))),
      case List.find (\<lambda>b. isl (crop_direct rnd margin_ratio orig_w orig_h b)) layout_result of
        None \<Rightarrow> None | Some b \<Rightarrow> Some OverflowError) \<and>
   (py_index (pdf_pages w) (page pd - 1) = Inr (orig_w, orig_h) \<and>
    find_layout_file (page pd - 1) layout_images = Some f \<and> f \<noteq> [] \<and>
    image_size w f = (layout_w, layout_h) \<and>
    truediv rnd orig_w layout_w = Inr scale_x \<and> truediv rnd orig_h layout_h = Inr scale_y \<longrightarrow>
    crop_page rnd w layout_images doc_key margin_x_ratio margin_y_ratio pd =
      (map (\<lambda>(idx, b).
              Saved (doc_key @ ''_page_'' @ str_int (page pd) @ ''_box_'' @ str_nat (idx + 1) @ ''.png'')
                (orig_w, orig_h)
                (projr (crop_scaled rnd scale_x scale_y margin_x_ratio margin_y_ratio orig_w orig_h b)))
         (filter (\<lambda>(idx, b).
                    \<not> degenerate
                        (projr (crop_scaled rnd scale_x scale_y margin_x_ratio margin_y_ratio orig_w orig_h b)))
            (takeWhile (\<lambda>(idx, b).
                          \<not> isl (crop_scaled rnd scale_x scale_y margin_x_ratio margin_y_ratio orig_w orig_h b))
               (List.enumerate 0 (bboxes pd)))),
       case List.find (\<lambda>b. isl (crop_scaled rnd scale_x scale_y margin_x_ratio margin_y_ratio orig_w orig_h b))
              (bboxes pd) of
         None \<Rightarrow> None | Some b \<Rightarrow> Some OverflowError)) \<and>
   extract_box_number (''image_box_'' @ str_nat (idx + 1) @ ''.png'') = enat (idx + 1)"
proof (intro conjI impI)
  have n: "image_out_name = (\<lambda>idx. ''image_box_'' @ str_nat (idx + 1) @ ''.png'')"
    by (rule ext) (simp add: image_out_name_def)
  let ?crop = "crop_direct rnd margin_ratio orig_w orig_h"
  have e: "(case List.find (\<lambda>b. isl (?crop b)) layout_result of None \<Rightarrow> None | Some b \<Rightarrow> Some (projl (?crop b))) =
        (case List.find (\<lambda>b. isl (?crop b)) layout_result of None \<Rightarrow> None | Some b \<Rightarrow> Some OverflowError)"
  proof (cases "List.find (\<lambda>b. isl (?crop b)) layout_result")
    case None
    then show ?thesis by simp
  next
    case (Some b)
    then have "isl (?crop b)" by (auto simp: find_Some_iff)
    then obtain e where "?crop b = Inl e" by (cases "?crop b") auto
    then show ?thesis using Some crop_direct_Inl [of rnd margin_ratio orig_w orig_h b e] by simp
  qed
  show "crop_segments_from_image rnd (orig_w, orig_h) layout_result margin_ratio =
     (map (\<lambda>(idx, b). Saved (''image_box_'' @ str_nat (idx + 1) @ ''.png'') (orig_w, orig_h)
                        (projr (crop_direct rnd margin_ratio orig_w orig_h b)))
        (filter (\<lambda>(idx, b). \<not> degenerate (projr (crop_direct rnd margin_ratio orig_w orig_h b)))
           (takeWhile (\<lambda>(idx, b). \<not> isl (crop_direct rnd margin_ratio orig_w orig_h b))
              (List.enumerate 0 layout_result))),
      case List.find (\<lambda>b. isl (crop_direct rnd margin_ratio orig_w orig_h b)) layout_result of
        None \<Rightarrow> None | Some b \<Rightarrow> Some OverflowError)"
    unfolding e [symmetric]
    by (rule prod_eqI) (simp_all add: crop_segments_from_image_def crop_loop_events crop_loop_error n)
next
  assume a: "py_index (pdf_pages w) (page pd - 1) = Inr (orig_w, orig_h) \<and>
    find_layout_file (page pd - 1) layout_images = Some f \<and> f \<noteq> [] \<and>
    image_size w f = (layout_w, layout_h) \<and>
    truediv rnd orig_w layout_w = Inr scale_x \<and> truediv rnd orig_h layout_h = Inr scale_y"
  have n: "page_out_name doc_key (page pd) =
      (\<lambda>idx. doc_key @ ''_page_'' @ str_int (page pd) @ ''_box_'' @ str_nat (idx + 1) @ ''.png'')"
    by (rule ext) (simp add: page_out_name_def)
  let ?crop = "crop_scaled rnd scale_x scale_y margin_x_ratio margin_y_ratio orig_w orig_h"
  have e: "(case List.find (\<lambda>b. isl (?crop b)) (bboxes pd) of None \<Rightarrow> None | Some b \<Rightarrow> Some (projl (?crop b))) =
        (case List.find (\<lambda>b. isl (?crop b)) (bboxes pd) of None \<Rightarrow> None | Some b \<Rightarrow> Some OverflowError)"
  proof (cases "List.find (\<lambda>b. isl (?crop b)) (bboxes pd)")
    case None
    then show ?thesis by simp
  next
    case (Some b)
    then have "isl (?crop b)" by (auto simp: find_Some_iff)
    then obtain e where "?crop b = Inl e" by (cases "?crop b") auto
    then show ?thesis
      using Some crop_scaled_Inl [of rnd scale_x scale_y margin_x_ratio margin_y_ratio orig_w orig_h b e] by simp
  qed
  from a have p: "crop_page rnd w layout_images doc_key margin_x_ratio margin_y_ratio pd =
     crop_loop ?crop (page_out_name doc_key (page pd)) (orig_w, orig_h) 0 (bboxes pd)"
    by (intro crop_page_found) auto
  show "crop_page rnd w layout_images doc_key margin_x_ratio margin_y_ratio pd =
      (map (\<lambda>(idx, b).
              Saved (doc_key @ ''_page_'' @ str_int (page pd) @ ''_box_'' @ str_nat (idx + 1) @ ''.png'')
                (orig_w, orig_h)
                (projr (crop_scaled rnd scale_x scale_y margin_x_ratio margin_y_ratio orig_w orig_h b)))
         (filter (\<lambda>(idx, b).
                    \<not> degenerate
                        (projr (crop_scaled rnd scale_x scale_y margin_x_ratio margin_y_ratio orig_w orig_h b)))
            (takeWhile (\<lambda>(idx, b).
                          \<not> isl (crop_scaled rnd scale_x scale_y margin_x_ratio margin_y_ratio orig_w orig_h b))
               (List.enumerate 0 (bboxes pd)))),
       case List.find (\<lambda>b. isl (crop_scaled rnd scale_x scale_y margin_x_ratio margin_y_ratio orig_w orig_h b))
              (bboxes pd) of
         None \<Rightarrow> None | Some b \<Rightarrow> Some OverflowError)"
    unfolding e [symmetric] p
    by (rule prod_eqI) (simp_all add: crop_loop_events crop_loop_error n)
next
  show "extract_box_number (''image_box_'' @ str_nat (idx + 1) @ ''.png'') = enat (idx + 1)"
    using extract_image_out_name [of idx] by (simp add: image_out_name_def)
qed

theorem box_number_is_position_witness:
  "crop_page Fin
     \<lparr>pdf_pages = [(400, 200)], listdir = [''doc_0_layout.png''], image_size = (\<lambda>f. (200, 100))\<rparr>
     [''doc_0_layout.png''] ''doc'' (Fin (1 / 20)) (Fin (1 / 20))
     \<lparr>page = 1, bboxes = [(Fin 50, Fin 50, Fin 50, Fin 60), (Fin 10, Fin 10, Fin 110, Fin 60),
                          (Fin 50, Fin 50, Fin 60, Fin 50), (Fin 20, Fin 20, Fin 40, Fin 40)]\<rparr> =
   ([Saved ''doc_page_1_box_2.png'' (400, 200) (10, 15, 230, 125),
     Saved ''doc_page_1_box_4.png'' (400, 200) (38, 38, 82, 82)], None) \<and>
   crop_segments_from_image Fin (400, 200)
     [(Fin 100, Fin 100, Fin 100, Fin 105), (Fin 30, Fin 30, Fin 40, Fin 40)] (Fin 0) =
     ([Saved ''image_box_2.png'' (400, 200) (30, 30, 40, 40)], None) \<and>
   crop_segments_from_image Fin (400, 200)
     [(Fin 100, Fin 100, Fin 100, Fin 105), (Fin 30, Fin 30, Fin 40, Fin 40),
      (PInf, Fin 10, Fin 20, Fin 20), (Fin 50, Fin 50, Fin 60, Fin 60)] (Fin (1 / 2)) =
     ([Saved ''image_box_2.png'' (400, 200) (25, 25, 45, 45)], Some OverflowError)"
proof -
  let ?w = "\<lparr>pdf_pages = [(400, 200)], listdir = [''doc_0_layout.png''], image_size = (\<lambda>f. (200 :: int, 100 :: int))\<rparr>"
  let ?pd = "\<lparr>page = 1, bboxes = [(Fin 50, Fin 50, Fin 50, Fin 60), (Fin 10, Fin 10, Fin 110, Fin 60),
                          (Fin 50, Fin 50, Fin 60, Fin 50), (Fin 20, Fin 20, Fin 40, Fin 40)]\<rparr>"
  have h: "py_index (pdf_pages ?w) (page ?pd - 1) = Inr (400, 200) \<and>
    find_layout_file (page ?pd - 1) [''doc_0_layout.png''] = Some ''doc_0_layout.png'' \<and>
    ''doc_0_layout.png'' \<noteq> [] \<and>
    image_size ?w ''doc_0_layout.png'' = (200, 100) \<and>
    truediv Fin 400 200 = Inr (Fin 2) \<and> truediv Fin 200 100 = Inr (Fin 2)"
    by code_simp
  note t = box_number_is_position [where rnd = Fin and orig_w = 400 and orig_h = 200]
  have e: "(map (\<lambda>(idx, b).
              Saved (''doc'' @ ''_page_'' @ str_int (page ?pd) @ ''_box_'' @ str_nat (idx + 1) @ ''.png'')
                (400, 200)
                (projr (crop_scaled Fin (Fin 2) (Fin 2) (Fin (1 / 20)) (Fin (1 / 20)) 400 200 b)))
         (filter (\<lambda>(idx, b).
                    \<not> degenerate
                        (projr (crop_scaled Fin (Fin 2) (Fin 2) (Fin (1 / 20)) (Fin (1 / 20)) 400 200 b)))
            (takeWhile (\<lambda>(idx, b).
                          \<not> isl (crop_scaled Fin (Fin 2) (Fin 2) (Fin (1 / 20)) (Fin (1 / 20)) 400 200 b))
               (List.enumerate 0 (bboxes ?pd)))),
       case List.find (\<lambda>b. isl (crop_scaled Fin (Fin 2) (Fin 2) (Fin (1 / 20)) (Fin (1 / 20)) 400 200 b))
              (bboxes ?pd) of
         None \<Rightarrow> None | Some b \<Rightarrow> Some OverflowError) =
      ([Saved ''doc_page_1_box_2.png'' (400, 200) (10, 15, 230, 125),
        Saved ''doc_page_1_box_4.png'' (400, 200) (38, 38, 82, 82)], None)"
    by code_simp
  have e2: "(map (\<lambda>(idx, b). Saved (''image_box_'' @ str_nat (idx + 1) @ ''.png'') (400, 200)
                        (projr (crop_direct Fin (Fin 0) 400 200 b)))
        (filter (\<lambda>(idx, b). \<not> degenerate (projr (crop_direct Fin (Fin 0) 400 200 b)))
           (takeWhile (\<lambda>(idx, b). \<not> isl (crop_direct Fin (Fin 0) 400 200 b))
              (List.enumerate 0 [(Fin 100, Fin 100, Fin 100, Fin 105), (Fin 30, Fin 30, Fin 40, Fin 40)]))),
      case List.find (\<lambda>b. isl (crop_direct Fin (Fin 0) 400 200 b))
             [(Fin 100, Fin 100, Fin 100, Fin 105), (Fin 30, Fin 30, Fin 40, Fin 40)] of
        None \<Rightarrow> None | Some b \<Rightarrow> Some OverflowError) =
     ([Saved ''image_box_2.png'' (400, 200) (30, 30, 40, 40)], None)"
    by code_simp
  have e3: "(map (\<lambda>(idx, b). Saved (''image_box_'' @ str_nat (idx + 1) @ ''.png'') (400, 200)
                        (projr (crop_direct Fin (Fin (1 / 2)) 400 200 b)))
        (filter (\<lambda>(idx, b). \<not> degenerate (projr (crop_direct Fin (Fin (1 / 2)) 400 200 b)))
           (takeWhile (\<lambda>(idx, b). \<not> isl (crop_direct Fin (Fin (1 / 2)) 400 200 b))
              (List.enumerate 0 [(Fin 100, Fin 100, Fin 100, Fin 105), (Fin 30, Fin 30, Fin 40, Fin 40),
      (PInf, Fin 10, Fin 20, Fin 20), (Fin 50, Fin 50, Fin 60, Fin 60)]))),
      case List.find (\<lambda>b. isl (crop_direct Fin (Fin (1 / 2)) 400 200 b))
             [(Fin 100, Fin 100, Fin 100, Fin 105), (Fin 30, Fin 30, Fin 40, Fin 40),
      (PInf, Fin 10, Fin 20, Fin 20), (Fin 50, Fin 50, Fin 60, Fin 60)] of
        None \<Rightarrow> None | Some b \<Rightarrow> Some OverflowError) =
     ([Saved ''image_box_2.png'' (400, 200) (25, 25, 45, 45)], Some OverflowError)"
    by code_simp
  from h t [where w = ?w and pd = ?pd and layout_images = "[''doc_0_layout.png'']"
      and f = "''doc_0_layout.png''" and layout_w = 200 and layout_h = 100 and doc_key = "''doc''"
      and margin_x_ratio = "Fin (1 / 20)" and margin_y_ratio = "Fin (1 / 20)"
      and scale_x = "Fin 2" and scale_y = "Fin 2"]
  have a: "crop_page Fin ?w [''doc_0_layout.png''] ''doc'' (Fin (1 / 20)) (Fin (1 / 20)) ?pd =
      ([Saved ''doc_page_1_box_2.png'' (400, 200) (10, 15, 230, 125),
        Saved ''doc_page_1_box_4.png'' (400, 200) (38, 38, 82, 82)], None)"
    unfolding e by blast
  from t [where layout_result = "[(Fin 100, Fin 100, Fin 100, Fin 105), (Fin 30, Fin 30, Fin 40, Fin 40)]"
      and margin_ratio = "Fin 0"]
  have b: "crop_segments_from_image Fin (400, 200)
     [(Fin 100, Fin 100, Fin 100, Fin 105), (Fin 30, Fin 30, Fin 40, Fin 40)] (Fin 0) =
     ([Saved ''image_box_2.png'' (400, 200) (30, 30, 40, 40)], None)"
    unfolding e2 by blast
  from t [where layout_result = "[(Fin 100, Fin 100, Fin 100, Fin 105), (Fin 30, Fin 30, Fin 40, Fin 40),
      (PInf, Fin 10, Fin 20, Fin 20), (Fin 50, Fin 50, Fin 60, Fin 60)]"
      and margin_ratio = "Fin (1 / 2)"]
  have c: "crop_segments_from_image Fin (400, 200)
     [(Fin 100, Fin 100, Fin 100, Fin 105), (Fin 30, Fin 30, Fin 40, Fin 40),
      (PInf, Fin 10, Fin 20, Fin 20), (Fin 50, Fin 50, Fin 60, Fin 60)] (Fin (1 / 2)) =
     ([Saved ''image_box_2.png'' (400, 200) (25, 25, 45, 45)], Some OverflowError)"
    unfolding e3 by blast
  from a b c show ?thesis by blast
qed

section \<open>Exactly one document\<close>

text \<open>
  Claim C7. If the parsed layout results do not hold exactly one document entry, the
  document-mode run ends at once with the \<^verbatim>\<open>ValueError\<close> of line 47: no event has
  happened, so no page was processed and no segment written. If they hold exactly one,
  the run is the loop over that document's pages and never ends with a \<^verbatim>\<open>ValueError\<close>:
  \<^verbatim>\<open>int\<close> never meets a NaN, because \<^verbatim>\<open>max\<close> and \<^verbatim>\<open>min\<close> return their first argument
  when the second is NaN.
\<close>

theorem one_document_or_abort:
  "(length layout_data \<noteq> 1 \<longrightarrow>
      crop_clean_segments_with_margin rnd w layout_data margin_x_ratio margin_y_ratio =
        ([], Some (ValueError ''Expected one document in JSON.''))) \<and>
   (length layout_data = 1 \<longrightarrow>
      snd (crop_clean_segments_with_margin rnd w layout_data margin_x_ratio margin_y_ratio)
        \<noteq> Some (ValueError msg) \<and>
      crop_clean_segments_with_margin rnd w layout_data margin_x_ratio margin_y_ratio =
        crop_pages rnd w (filter (\<lambda>f. endswith f ''_layout.png'') (listdir w)) (fst (hd layout_data))
          margin_x_ratio margin_y_ratio (snd (hd layout_data)))"
proof (intro conjI impI)
  assume "length layout_data \<noteq> 1"
  then show "crop_clean_segments_with_margin rnd w layout_data margin_x_ratio margin_y_ratio =
        ([], Some (ValueError ''Expected one document in JSON.''))"
    by (simp add: crop_clean_segments_with_margin_def)
next
  assume one: "length layout_data = 1"
  then show r: "crop_clean_segments_with_margin rnd w layout_data margin_x_ratio margin_y_ratio =
        crop_pages rnd w (filter (\<lambda>f. endswith f ''_layout.png'') (listdir w)) (fst (hd layout_data))
          margin_x_ratio margin_y_ratio (snd (hd layout_data))"
    by (simp add: crop_clean_segments_with_margin_def Let_def)
  show "snd (crop_clean_segments_with_margin rnd w layout_data margin_x_ratio margin_y_ratio)
        \<noteq> Some (ValueError msg)"
    unfolding r using crop_pages_error by fastforce
qed

theorem one_document_or_abort_witness:
  "length ([] :: (string \<times> page_data list) list) \<noteq> 1 \<and>
   crop_clean_segments_with_margin Fin
     \<lparr>pdf_pages = [(400, 200)], listdir = [''doc_0_layout.png''], image_size = (\<lambda>f. (200, 100))\<rparr>
     [] (Fin (1 / 20)) (Fin (1 / 20)) = ([], Some (ValueError ''Expected one document in JSON.'')) \<and>
   length [(''a'', [\<lparr>page = 1, bboxes = [(Fin 10, Fin 10, Fin 110, Fin 60)]\<rparr>]), (''b'', [])] \<noteq> 1 \<and>
   crop_clean_segments_with_margin Fin
     \<lparr>pdf_pages = [(400, 200)], listdir = [''doc_0_layout.png''], image_size = (\<lambda>f. (200, 100))\<rparr>
     [(''a'', [\<lparr>page = 1, bboxes = [(Fin 10, Fin 10, Fin 110, Fin 60)]\<rparr>]), (''b'', [])]
     (Fin (1 / 20)) (Fin (1 / 20)) =
     ([], Some (ValueError ''Expected one document in JSON.'')) \<and>
   length [(''doc'', [\<lparr>page = 1, bboxes = [(Fin 10, Fin 10, Fin 110, Fin 60)]\<rparr>])] = 1 \<and>
   snd (crop_clean_segments_with_margin Fin
     \<lparr>pdf_pages = [(400, 200)], listdir = [''doc_0_layout.png''], image_size = (\<lambda>f. (200, 100))\<rparr>
     [(''doc'', [\<lparr>page = 1, bboxes = [(Fin 10, Fin 10, Fin 110, Fin 60)]\<rparr>])] (Fin (1 / 20)) (Fin (1 / 20)))
     \<noteq> Some (ValueError ''Expected one document in JSON.'')"
proof -
  let ?w = "\<lparr>pdf_pages = [(400, 200)], listdir = [''doc_0_layout.png''], image_size = (\<lambda>f. (200 :: int, 100 :: int))\<rparr>"
  note t = one_document_or_abort [where rnd = Fin and w = ?w and margin_x_ratio = "Fin (1 / 20)"
      and margin_y_ratio = "Fin (1 / 20)" and msg = "''Expected one document in JSON.''"]
  have a: "length ([] :: (string \<times> page_data list) list) \<noteq> 1" by simp
  have b: "length [(''a'', [\<lparr>page = 1, bboxes = [(Fin 10, Fin 10, Fin 110, Fin 60)]\<rparr>]), (''b'', [])] \<noteq> 1" by simp
  have c: "length [(''doc'', [\<lparr>page = 1, bboxes = [(Fin 10, Fin 10, Fin 110, Fin 60)]\<rparr>])] = 1" by simp
  from a t [where layout_data = "[]"]
  have a': "crop_clean_segments_with_margin Fin ?w [] (Fin (1 / 20)) (Fin (1 / 20)) =
      ([], Some (ValueError ''Expected one document in JSON.''))"
    by blast
  from b t [where layout_data = "[(''a'', [\<lparr>page = 1, bboxes = [(Fin 10, Fin 10, Fin 110, Fin 60)]\<rparr>]), (''b'', [])]"]
  have b': "crop_clean_segments_with_margin Fin ?w
      [(''a'', [\<lparr>page = 1, bboxes = [(Fin 10, Fin 10, Fin 110, Fin 60)]\<rparr>]), (''b'', [])]
      (Fin (1 / 20)) (Fin (1 / 20)) =
      ([], Some (ValueError ''Expected one document in JSON.''))"
    by blast
  from c t [where layout_data = "[(''doc'', [\<lparr>page = 1, bboxes = [(Fin 10, Fin 10, Fin 110, Fin 60)]\<rparr>])]"]
  have c': "snd (crop_clean_segments_with_margin Fin ?w
      [(''doc'', [\<lparr>page = 1, bboxes = [(Fin 10, Fin 10, Fin 110, Fin 60)]\<rparr>])] (Fin (1 / 20)) (Fin (1 / 20)))
      \<noteq> Some (ValueError ''Expected one document in JSON.'')"
    by blast
  from a b c a' b' c' show ?thesis by blast
qed

section \<open>The page matcher\<close>

text \<open>
  Claim C6. For the page of number \<open>page\<close> the matcher looks for the 0-based index
  \<open>p = page - 1\<close>. A name matches when it contains \<^verbatim>\<open>_<p>_\<close> or ends with
  \<^verbatim>\<open>_<p>_layout.png\<close>; the matcher picks the first matching name, in listing order, among
  the names of the listing that end with \<^verbatim>\<open>_layout.png\<close> (the list the run hands to the
  page loop). If no name matches, the page, whose number indexes a render (as every number
  from one to the number of renders does), yields the log line of line 68 and nothing
  else, raises nothing, and the run goes on with the next page.
\<close>

theorem page_matcher_first_match_or_skip:
  "(find_layout_file p layout_images = Some f) =
     (\<exists>i<length layout_images. layout_images ! i = f \<and> page_match p f \<and>
        (\<forall>j<i. \<not> page_match p (layout_images ! j))) \<and>
   page_match p fname =
     ((\<exists>pre suf. fname = pre @ ''_'' @ str_int p @ ''_'' @ suf) \<or>
      (\<exists>pre. fname = pre @ ''_'' @ str_int p @ ''_layout.png'')) \<and>
   (length layout_data = 1 \<longrightarrow>
      crop_clean_segments_with_margin rnd w layout_data margin_x_ratio margin_y_ratio =
        crop_pages rnd w (filter (\<lambda>f. endswith f ''_layout.png'') (listdir w)) (fst (hd layout_data))
          margin_x_ratio margin_y_ratio (snd (hd layout_data))) \<and>
   (1 \<le> page pd \<and> page pd \<le> int (length (pdf_pages w)) \<longrightarrow>
      py_index (pdf_pages w) (page pd - 1) = Inr (pdf_pages w ! nat (page pd - 1))) \<and>
   (py_index (pdf_pages w) (page pd - 1) = Inr img \<and>
    (\<forall>f\<in>set layout_images. \<not> page_match (page pd - 1) f) \<longrightarrow>
      crop_page rnd w layout_images doc_key margin_x_ratio margin_y_ratio pd =
        ([LayoutNotFound (page pd - 1)], None) \<and>
      crop_pages rnd w layout_images doc_key margin_x_ratio margin_y_ratio (pd # rest) =
        then_run [LayoutNotFound (page pd - 1)]
          (crop_pages rnd w layout_images doc_key margin_x_ratio margin_y_ratio rest))"
proof (intro conjI impI)
  assume "1 \<le> page pd \<and> page pd \<le> int (length (pdf_pages w))"
  then show "py_index (pdf_pages w) (page pd - 1) = Inr (pdf_pages w ! nat (page pd - 1))"
    by (simp add: py_index_def)
next
  show "(find_layout_file p layout_images = Some f) =
     (\<exists>i<length layout_images. layout_images ! i = f \<and> page_match p f \<and>
        (\<forall>j<i. \<not> page_match p (layout_images ! j)))"
    by (rule find_layout_file_Some)
  show "page_match p fname =
     ((\<exists>pre suf. fname = pre @ ''_'' @ str_int p @ ''_'' @ suf) \<or>
      (\<exists>pre. fname = pre @ ''_'' @ str_int p @ ''_layout.png''))"
    by (rule page_match_iff)
next
  assume "length layout_data = 1"
  then show "crop_clean_segments_with_margin rnd w layout_data margin_x_ratio margin_y_ratio =
        crop_pages rnd w (filter (\<lambda>f. endswith f ''_layout.png'') (listdir w)) (fst (hd layout_data))
          margin_x_ratio margin_y_ratio (snd (hd layout_data))"
    by (simp add: crop_clean_segments_with_margin_def Let_def)
next
  assume a: "py_index (pdf_pages w) (page pd - 1) = Inr img \<and>
    (\<forall>f\<in>set layout_images. \<not> page_match (page pd - 1) f)"
  then show p: "crop_page rnd w layout_images doc_key margin_x_ratio margin_y_ratio pd =
        ([LayoutNotFound (page pd - 1)], None)"
    by (simp add: crop_page_not_found)
  show "crop_pages rnd w layout_images doc_key margin_x_ratio margin_y_ratio (pd # rest) =
        then_run [LayoutNotFound (page pd - 1)]
          (crop_pages rnd w layout_images doc_key margin_x_ratio margin_y_ratio rest)"
    by (simp add: p run_seq_None)
qed

theorem page_matcher_first_match_or_skip_witness:
  "find_layout_file 0 [''doc_2_layout.png'', ''doc_0_layout.png'', ''x_0_layout.png''] = Some ''doc_0_layout.png'' \<and>
   find_layout_file 1 [''doc_2_layout.png'', ''doc_0_layout.png'', ''x_0_layout.png''] = None \<and>
   crop_page Fin
     \<lparr>pdf_pages = [(400, 200), (400, 200), (400, 200)],
        listdir = [''doc_2_layout.png'', ''notes.txt'', ''doc_0_layout.png'', ''x_0_layout.png''],
        image_size = (\<lambda>f. (200, 100))\<rparr>
     [''doc_2_layout.png'', ''doc_0_layout.png'', ''x_0_layout.png''] ''doc'' (Fin 0) (Fin 0)
     \<lparr>page = 2, bboxes = [(Fin 10, Fin 10, Fin 110, Fin 60)]\<rparr> = ([LayoutNotFound 1], None) \<and>
   crop_clean_segments_with_margin Fin
     \<lparr>pdf_pages = [(400, 200), (400, 200), (400, 200)],
        listdir = [''doc_2_layout.png'', ''notes.txt'', ''doc_0_layout.png'', ''x_0_layout.png''],
        image_size = (\<lambda>f. (200, 100))\<rparr>
     [(''doc'', [\<lparr>page = 1, bboxes = [(Fin 10, Fin 10, Fin 20, Fin 20)]\<rparr>,
                 \<lparr>page = 2, bboxes = [(Fin 10, Fin 10, Fin 110, Fin 60)]\<rparr>,
                 \<lparr>page = 3, bboxes = [(Fin 30, Fin 30, Fin 40, Fin 40)]\<rparr>])] (Fin 0) (Fin 0) =
     ([Saved ''doc_page_1_box_1.png'' (400, 200) (20, 20, 40, 40), LayoutNotFound 1,
       Saved ''doc_page_3_box_1.png'' (400, 200) (60, 60, 80, 80)], None)"
proof -
  let ?w = "\<lparr>pdf_pages = [(400, 200), (400, 200), (400, 200)],
        listdir = [''doc_2_layout.png'', ''notes.txt'', ''doc_0_layout.png'', ''x_0_layout.png''],
        image_size = (\<lambda>f. (200 :: int, 100 :: int))\<rparr>"
  let ?li = "[''doc_2_layout.png'', ''doc_0_layout.png'', ''x_0_layout.png'']"
  let ?pd = "\<lparr>page = 2, bboxes = [(Fin 10, Fin 10, Fin 110, Fin 60)]\<rparr>"
  have a: "find_layout_file 0 ?li = Some ''doc_0_layout.png''" by code_simp
  have b: "find_layout_file 1 ?li = None" by code_simp
  have h: "py_index (pdf_pages ?w) (page ?pd - 1) = Inr (400, 200) \<and>
    (\<forall>f\<in>set ?li. \<not> page_match (page ?pd - 1) f)"
    by code_simp
  from h page_matcher_first_match_or_skip [where w = ?w and pd = ?pd and img = "(400, 200)"
      and layout_images = ?li and rnd = Fin and doc_key = "''doc''" and margin_x_ratio = "Fin 0"
      and margin_y_ratio = "Fin 0"]
  have c: "crop_page Fin ?w ?li ''doc'' (Fin 0) (Fin 0) ?pd = ([LayoutNotFound (page ?pd - 1)], None)"
    by blast
  have d: "crop_clean_segments_with_margin Fin ?w
     [(''doc'', [\<lparr>page = 1, bboxes = [(Fin 10, Fin 10, Fin 20, Fin 20)]\<rparr>,
                 \<lparr>page = 2, bboxes = [(Fin 10, Fin 10, Fin 110, Fin 60)]\<rparr>,
                 \<lparr>page = 3, bboxes = [(Fin 30, Fin 30, Fin 40, Fin 40)]\<rparr>])] (Fin 0) (Fin 0) =
     ([Saved ''doc_page_1_box_1.png'' (400, 200) (20, 20, 40, 40), LayoutNotFound 1,
       Saved ''doc_page_3_box_1.png'' (400, 200) (60, 60, 80, 80)], None)"
    by code_simp
  from a b c d show ?thesis by simp
qed

section \<open>The order of recognition\<close>

text \<open>
  Claim C3, as the spec states it: the recognizer takes the segment files in
  nondecreasing order of their box numbers, those without a number last, and two listing
  orders of the same file set give the same order. The first half holds. The second
  fails where two files share a box number: the sort is stable and leaves them in listing
  order. The cropper of document mode writes such files into one folder,
  \<^verbatim>\<open>doc_page_1_box_1.png\<close> and \<^verbatim>\<open>doc_page_2_box_1.png\<close>, and the two listings of this folder
  are recognized in two different orders.
\<close>

theorem recognition_order_counterexample:
  "mset [''doc_page_1_box_1.png'', ''doc_page_2_box_1.png''] =
     mset [''doc_page_2_box_1.png'', ''doc_page_1_box_1.png''] \<and>
   segment_files [''doc_page_1_box_1.png'', ''doc_page_2_box_1.png''] =
     [''doc_page_1_box_1.png'', ''doc_page_2_box_1.png''] \<and>
   segment_files [''doc_page_2_box_1.png'', ''doc_page_1_box_1.png''] =
     [''doc_page_2_box_1.png'', ''doc_page_1_box_1.png''] \<and>
   segment_files [''doc_page_1_box_1.png'', ''doc_page_2_box_1.png''] \<noteq>
     segment_files [''doc_page_2_box_1.png'', ''doc_page_1_box_1.png'']"
proof -
  have m: "mset [''doc_page_1_box_1.png'', ''doc_page_2_box_1.png''] =
     mset [''doc_page_2_box_1.png'', ''doc_page_1_box_1.png'']"
    by (simp add: add_mset_commute)
  have k: "extract_box_number ''doc_page_1_box_1.png'' = 1" "extract_box_number ''doc_page_2_box_1.png'' = 1"
    by code_simp+
  have e: "endswith ''doc_page_1_box_1.png'' ''.png''" "endswith ''doc_page_2_box_1.png'' ''.png''"
    by code_simp+
  have a: "segment_files [''doc_page_1_box_1.png'', ''doc_page_2_box_1.png''] =
     [''doc_page_1_box_1.png'', ''doc_page_2_box_1.png'']"
    using k e by (simp add: segment_files_def)
  have b: "segment_files [''doc_page_2_box_1.png'', ''doc_page_1_box_1.png''] =
     [''doc_page_2_box_1.png'', ''doc_page_1_box_1.png'']"
    using k e by (simp add: segment_files_def)
  have c: "[''doc_page_1_box_1.png'', ''doc_page_2_box_1.png''] \<noteq>
     [''doc_page_2_box_1.png'', ''doc_page_1_box_1.png'']"
    by simp
  show ?thesis using m c unfolding a b by blast
qed

text \<open>
  Claim C3, amended. The recognizer takes the \<^verbatim>\<open>.png\<close> files of a folder in nondecreasing
  order of the box number \<^verbatim>\<open>extract_box_number\<close> reads from the name; the files without a
  number (key \<open>\<infinity>\<close>) come last, and files of equal key keep their listing order. For two
  listing orders of the same files, the recognizer takes the same files with the same
  sequence of box numbers; the order of the files is the same whenever no two \<^verbatim>\<open>.png\<close>
  files of the folder have the same key. The entries of the report follow this order.
\<close>

theorem recognition_order:
  "sorted (map extract_box_number (segment_files listing)) \<and>
   segment_files listing =
     segment_files (filter (\<lambda>f. extract_box_number f \<noteq> \<infinity>) listing) @
     filter (\<lambda>f. extract_box_number f = \<infinity>) (filter (\<lambda>f. endswith f ''.png'') listing) \<and>
   filter (\<lambda>f. extract_box_number f = k) (segment_files listing) =
     filter (\<lambda>f. extract_box_number f = k) (filter (\<lambda>f. endswith f ''.png'') listing) \<and>
   (mset listing = mset listing' \<longrightarrow>
      mset (segment_files listing) = mset (segment_files listing') \<and>
      map extract_box_number (segment_files listing) = map extract_box_number (segment_files listing')) \<and>
   (mset listing = mset listing' \<and>
    inj_on extract_box_number {f \<in> set listing. endswith f ''.png''} \<longrightarrow>
      segment_files listing = segment_files listing') \<and>
   ocr_folder os_listdir recognition folder_path full_text =
     full_text @ folder_header folder_path @
     concat (map (\<lambda>fname. segment_entry fname (recognition (path_join folder_path fname)))
               (segment_files (os_listdir folder_path)))"
proof (intro conjI impI)
  show "sorted (map extract_box_number (segment_files listing))"
    by (simp add: segment_files_def)
  show "segment_files listing =
     segment_files (filter (\<lambda>f. extract_box_number f \<noteq> \<infinity>) listing) @
     filter (\<lambda>f. extract_box_number f = \<infinity>) (filter (\<lambda>f. endswith f ''.png'') listing)"
  proof -
    have "filter (\<lambda>f. endswith f ''.png'') (filter (\<lambda>f. extract_box_number f \<noteq> \<infinity>) listing) =
          filter (\<lambda>f. extract_box_number f \<noteq> \<infinity>) (filter (\<lambda>f. endswith f ''.png'') listing)"
      by (rule filter_swap)
    then show ?thesis
      unfolding segment_files_def using sort_key_top_last by metis
  qed
  show "filter (\<lambda>f. extract_box_number f = k) (segment_files listing) =
     filter (\<lambda>f. extract_box_number f = k) (filter (\<lambda>f. endswith f ''.png'') listing)"
    unfolding segment_files_def by (rule sort_key_stable)
  show "ocr_folder os_listdir recognition folder_path full_text =
     full_text @ folder_header folder_path @
     concat (map (\<lambda>fname. segment_entry fname (recognition (path_join folder_path fname)))
               (segment_files (os_listdir folder_path)))"
    by (rule ocr_folder_concat)
next
  assume m: "mset listing = mset listing'"
  then have f: "mset (filter (\<lambda>f. endswith f ''.png'') listing) = mset (filter (\<lambda>f. endswith f ''.png'') listing')"
    by simp
  show "mset (segment_files listing) = mset (segment_files listing')"
    using f by (simp add: segment_files_def)
  show "map extract_box_number (segment_files listing) = map extract_box_number (segment_files listing')"
    unfolding segment_files_def using f by (rule sort_key_keys_of_mset)
next
  assume a: "mset listing = mset listing' \<and>
    inj_on extract_box_number {f \<in> set listing. endswith f ''.png''}"
  then have f: "mset (filter (\<lambda>f. endswith f ''.png'') listing) = mset (filter (\<lambda>f. endswith f ''.png'') listing')"
    by simp
  have i: "inj_on extract_box_number (set (filter (\<lambda>f. endswith f ''.png'') listing))"
    using a by simp
  show "segment_files listing = segment_files listing'"
    unfolding segment_files_def using f i by (rule sort_key_inj_of_mset)
qed

theorem recognition_order_witness:
  "mset [''image_box_10.png'', ''notes.txt'', ''zz.png'', ''image_box_2.png''] =
     mset [''image_box_2.png'', ''zz.png'', ''image_box_10.png'', ''notes.txt''] \<and>
   segment_files [''image_box_10.png'', ''notes.txt'', ''zz.png'', ''image_box_2.png''] =
     segment_files [''image_box_2.png'', ''zz.png'', ''image_box_10.png'', ''notes.txt''] \<and>
   segment_files [''image_box_10.png'', ''notes.txt'', ''zz.png'', ''image_box_2.png''] =
     [''image_box_2.png'', ''image_box_10.png'', ''zz.png''] \<and>
   sorted (map extract_box_number
     (segment_files [''image_box_10.png'', ''notes.txt'', ''zz.png'', ''image_box_2.png'']))"
proof -
  let ?L = "[''image_box_10.png'', ''notes.txt'', ''zz.png'', ''image_box_2.png'']"
  let ?L' = "[''image_box_2.png'', ''zz.png'', ''image_box_10.png'', ''notes.txt'']"
  have k: "extract_box_number ''image_box_10.png'' = 10" "extract_box_number ''zz.png'' = \<infinity>"
    "extract_box_number ''image_box_2.png'' = 2"
    by code_simp+
  have e: "endswith ''image_box_10.png'' ''.png''" "endswith ''zz.png'' ''.png''"
    "endswith ''image_box_2.png'' ''.png''" "\<not> endswith ''notes.txt'' ''.png''"
    by code_simp+
  have m: "mset ?L = mset ?L'"
    by (simp add: add_mset_commute)
  have s: "{f \<in> set ?L. endswith f ''.png''} = {''image_box_10.png'', ''zz.png'', ''image_box_2.png''}"
    using e by auto
  have i: "inj_on extract_box_number {f \<in> set ?L. endswith f ''.png''}"
    unfolding s using k by simp
  note t = recognition_order [where listing = ?L and listing' = ?L']
  from t m i have a: "segment_files ?L = segment_files ?L'" by blast
  from t have b: "sorted (map extract_box_number (segment_files ?L))" by blast
  have c: "segment_files ?L = [''image_box_2.png'', ''image_box_10.png'', ''zz.png'']"
    using k e by (simp add: segment_files_def)
  from m a b c show ?thesis by blast
qed

section \<open>Blank text and the sentinel\<close>

text \<open>
  Claim C8. The text of a segment is its recognized lines, each followed by a newline.
  When it is empty or holds only whitespace, the segment's entry in the report is its
  name in brackets followed by \<^verbatim>\<open><No Text Detected>\<close>. Otherwise the entry holds the text
  with its outer whitespace stripped: the text is the stripped text between two runs of
  whitespace, and the stripped text neither starts nor ends with whitespace. The report is
  the concatenation, folder by folder, of a header and these entries in the order of
  recognition.
\<close>

theorem blank_text_sentinel:
  "segment_text_of preds = concat (map (\<lambda>line. line @ NL) (concat preds)) \<and>
   ((\<forall>c\<in>set (segment_text_of preds). is_space c) \<longrightarrow>
      segment_entry fname preds = ''['' @ fname @ '']'' @ NL @ ''<No Text Detected>'' @ NL @ NL) \<and>
   (\<not> (\<forall>c\<in>set (segment_text_of preds). is_space c) \<longrightarrow>
      segment_entry fname preds = ''['' @ fname @ '']'' @ NL @ py_strip (segment_text_of preds) @ NL @ NL \<and>
      py_strip (segment_text_of preds) \<noteq> [] \<and>
      \<not> is_space (hd (py_strip (segment_text_of preds))) \<and>
      \<not> is_space (last (py_strip (segment_text_of preds)))) \<and>
   (\<exists>pre suf. segment_text_of preds = pre @ py_strip (segment_text_of preds) @ suf \<and>
      (\<forall>c\<in>set pre. is_space c) \<and> (\<forall>c\<in>set suf. is_space c)) \<and>
   ocr_segments os_listdir recognition segment_folders =
     concat (map (\<lambda>folder_path. folder_header folder_path @
                    concat (map (\<lambda>fname. segment_entry fname (recognition (path_join folder_path fname)))
                              (segment_files (os_listdir folder_path))))
               segment_folders)"
proof (intro conjI impI)
  show "segment_text_of preds = concat (map (\<lambda>line. line @ NL) (concat preds))"
    by (rule segment_text_of_concat)
  show "\<exists>pre suf. segment_text_of preds = pre @ py_strip (segment_text_of preds) @ suf \<and>
      (\<forall>c\<in>set pre. is_space c) \<and> (\<forall>c\<in>set suf. is_space c)"
    by (rule py_strip_decompose)
  show "ocr_segments os_listdir recognition segment_folders =
     concat (map (\<lambda>folder_path. folder_header folder_path @
                    concat (map (\<lambda>fname. segment_entry fname (recognition (path_join folder_path fname)))
                              (segment_files (os_listdir folder_path))))
               segment_folders)"
    by (rule ocr_segments_concat)
next
  assume "\<forall>c\<in>set (segment_text_of preds). is_space c"
  then have "py_strip (segment_text_of preds) = []" by (simp only: py_strip_empty_iff)
  then show "segment_entry fname preds = ''['' @ fname @ '']'' @ NL @ ''<No Text Detected>'' @ NL @ NL"
    by (simp add: segment_entry_def Let_def strip_sentinel)
next
  assume "\<not> (\<forall>c\<in>set (segment_text_of preds). is_space c)"
  then have ne: "py_strip (segment_text_of preds) \<noteq> []" by (simp add: py_strip_empty_iff)
  then show "segment_entry fname preds =
      ''['' @ fname @ '']'' @ NL @ py_strip (segment_text_of preds) @ NL @ NL"
    by (simp add: segment_entry_def Let_def)
  show "py_strip (segment_text_of preds) \<noteq> []" by (rule ne)
  show "\<not> is_space (hd (py_strip (segment_text_of preds)))"
    using py_strip_ends [OF ne] by simp
  show "\<not> is_space (last (py_strip (segment_text_of preds)))"
    using py_strip_ends [OF ne] by simp
qed

theorem blank_text_sentinel_witness:
  "segment_entry ''image_box_1.png'' [[''  '', [CHR 0x09]], []] =
     ''[image_box_1.png]'' @ NL @ ''<No Text Detected>'' @ NL @ NL \<and>
   segment_entry ''image_box_2.png'' [['' hello '', ''world  '']] =
     ''[image_box_2.png]'' @ NL @ (''hello '' @ NL @ ''world'') @ NL @ NL \<and>
   ocr_segments (\<lambda>d. [''image_box_2.png'', ''image_box_1.png''])
     (\<lambda>p. if p = ''out/crops/image_box_1.png'' then [[''  '']] else [[''two'']]) [''out/crops/''] =
     NL @ ''=== SEGMENTS: crops ==='' @ NL @ NL @
     ''[image_box_1.png]'' @ NL @ ''<No Text Detected>'' @ NL @ NL @
     ''[image_box_2.png]'' @ NL @ ''two'' @ NL @ NL"
proof -
  have b: "\<forall>c\<in>set (segment_text_of [[''  '', [CHR 0x09]], []]). is_space c"
    by code_simp
  have n: "\<not> (\<forall>c\<in>set (segment_text_of [['' hello '', ''world  '']]). is_space c)"
    by code_simp
  have s: "py_strip (segment_text_of [['' hello '', ''world  '']]) = ''hello '' @ NL @ ''world''"
    by code_simp
  from b blank_text_sentinel [where preds = "[[''  '', [CHR 0x09]], []]" and fname = "''image_box_1.png''"]
  have a1: "segment_entry ''image_box_1.png'' [[''  '', [CHR 0x09]], []] =
     ''[image_box_1.png]'' @ NL @ ''<No Text Detected>'' @ NL @ NL"
    by simp
  from n blank_text_sentinel [where preds = "[['' hello '', ''world  '']]" and fname = "''image_box_2.png''"]
  have "segment_entry ''image_box_2.png'' [['' hello '', ''world  '']] =
     ''['' @ ''image_box_2.png'' @ '']'' @ NL @ py_strip (segment_text_of [['' hello '', ''world  '']]) @ NL @ NL"
    by blast
  then have a2: "segment_entry ''image_box_2.png'' [['' hello '', ''world  '']] =
     ''[image_box_2.png]'' @ NL @ (''hello '' @ NL @ ''world'') @ NL @ NL"
    unfolding s by simp
  have a3: "ocr_segments (\<lambda>d. [''image_box_2.png'', ''image_box_1.png''])
     (\<lambda>p. if p = ''out/crops/image_box_1.png'' then [[''  '']] else [[''two'']]) [''out/crops/''] =
     NL @ ''=== SEGMENTS: crops ==='' @ NL @ NL @
     ''[image_box_1.png]'' @ NL @ ''<No Text Detected>'' @ NL @ NL @
     ''[image_box_2.png]'' @ NL @ ''two'' @ NL @ NL"
    by code_simp
  from a1 a2 a3 show ?thesis by blast
qed

end
